theory Spec2Isabelle
  imports Complex_Main
begin

section \<open>Python values\<close>

text \<open>
  The values the program handles are what \<^verbatim>\<open>response.json()\<close> yields: \<^verbatim>\<open>None\<close>, booleans,
  numbers, strings, lists and dictionaries. A dictionary is an association list read with
  \<open>map_of\<close>. A \<open>string\<close> stands for the UTF-8 bytes of a Python \<^verbatim>\<open>str\<close>: equality,
  \<^verbatim>\<open>replace('|', ',')\<close>, splitting on an ASCII separator and line breaks act on the bytes
  as they act on the code points. A Python float is idealised as a rational; the program
  never computes with one, it only tests truthiness and formats.
\<close>

datatype json =
    JNull
  | JBool bool
  | JInt int
  | JFloat rat
  | JStr string
  | JArr "json list"
  | JObj "(string \<times> json) list"

text \<open>Python's truth value of an object (\<^verbatim>\<open>if x\<close>, \<^verbatim>\<open>not x\<close>, \<^verbatim>\<open>filter(None, xs)\<close>).\<close>

fun truthy :: "json \<Rightarrow> bool" where
  "truthy JNull = False"
| "truthy (JBool b) = b"
| "truthy (JInt n) = (n \<noteq> 0)"
| "truthy (JFloat q) = (q \<noteq> 0)"
| "truthy (JStr s) = (s \<noteq> [])"
| "truthy (JArr xs) = (xs \<noteq> [])"
| "truthy (JObj kvs) = (kvs \<noteq> [])"

text \<open>
  The exceptions of class \<^verbatim>\<open>Exception\<close> that the modelled code can meet.
  \<open>RequestException\<close> stands for \<^verbatim>\<open>requests.exceptions.RequestException\<close> and its
  subclasses other than \<open>HTTPError\<close> (timeouts, connection errors). Asynchronous
  \<^verbatim>\<open>BaseException\<close>s (\<^verbatim>\<open>KeyboardInterrupt\<close>) are outside the model.
\<close>

datatype exn =
    RequestException
  | HTTPError
  | KeyError
  | TypeError
  | AttributeError
  | ValueError
  | OverflowError
  | OSError

text \<open>\<^verbatim>\<open>isinstance(e, requests.exceptions.RequestException)\<close>.\<close>

fun is_request_exception :: "exn \<Rightarrow> bool" where
  "is_request_exception RequestException = True"
| "is_request_exception HTTPError = True"
| "is_request_exception _ = False"

text \<open>Sequencing of computations that may raise: the first exception wins.\<close>

fun bindE :: "exn + 'a \<Rightarrow> ('a \<Rightarrow> exn + 'b) \<Rightarrow> exn + 'b" where
  "bindE (Inl e) f = Inl e"
| "bindE (Inr x) f = f x"

section \<open>OSMAPIClient\<close>

subsection \<open>The environment of a request\<close>

text \<open>
  A response object is what its three members do: \<^verbatim>\<open>raise_for_status()\<close> (\<open>None\<close>: returns
  normally), \<^verbatim>\<open>status_code\<close> and \<^verbatim>\<open>json()\<close>.
\<close>

record response =
  raise_for_status :: "exn option"
  status_code :: int
  json_result :: "exn + json"

text \<open>
  A response built by the \<^verbatim>\<open>requests\<close> library, which \<^verbatim>\<open>self.session\<close> is an instance
  of (\<^verbatim>\<open>requests.Session()\<close>): \<^verbatim>\<open>Response.raise_for_status\<close> raises \<^verbatim>\<open>HTTPError\<close>, a
  \<^verbatim>\<open>RequestException\<close>, exactly for the status codes 400 to 599.
\<close>

definition http_response :: "int \<Rightarrow> exn + json \<Rightarrow> response" where
  "http_response code body =
     \<lparr>raise_for_status = (if 400 \<le> code \<and> code < 600 then Some HTTPError else None),
      status_code = code,
      json_result = body\<rparr>"

text \<open>
  What \<^verbatim>\<open>self.session.post\<close> / \<^verbatim>\<open>self.session.get\<close> does in the iteration with a given
  value of \<^verbatim>\<open>attempt\<close>: it raises, or it returns a response. The remote service is a black
  box, so a call runs against an arbitrary such function.
\<close>

datatype send_result = Raises exn | Responds response

type_synonym server = "nat \<Rightarrow> send_result"

text \<open>
  The effects a call has on the outside: the HTTP call of iteration \<open>attempt\<close>, and
  \<^verbatim>\<open>time.sleep(n)\<close>; \<open>effects\<close> lists them oldest first.
\<close>

datatype http_method = POST | GET

datatype event = Request http_method nat | Sleep nat

fun is_request :: "event \<Rightarrow> bool" where
  "is_request (Request m i) = True"
| "is_request (Sleep n) = False"

record client =
  request_count :: int
  error_count :: int
  effects :: "event list"

definition new_client :: client where
  "new_client = \<lparr>request_count = 0, error_count = 0, effects = []\<rparr>"

subsection \<open>\<^verbatim>\<open>_make_request\<close>\<close>

text \<open>How one iteration of the \<^verbatim>\<open>for\<close> loop ends.\<close>

datatype control = Return json | Continue | Break

text \<open>
  The body of the \<^verbatim>\<open>try\<close> block, lines 138 to 153. \<open>Inl e\<close>: the block raised \<open>e\<close>.
\<close>

definition try_body :: "server \<Rightarrow> http_method \<Rightarrow> nat \<Rightarrow> client \<Rightarrow> (exn + control) \<times> client" where
  "try_body srv m attempt st =
     (let st1 = st\<lparr>request_count := request_count st + 1\<rparr>;
          st2 = st1\<lparr>effects := effects st1 @ [Request m attempt]\<rparr>
      in case srv attempt of
           Raises e \<Rightarrow> (Inl e, st2)
         | Responds r \<Rightarrow>
             (case raise_for_status r of
                Some e \<Rightarrow> (Inl e, st2)
              | None \<Rightarrow>
                  if status_code r = 429
                  then (Inr Continue, st2\<lparr>effects := effects st2 @ [Sleep (10 * (attempt + 1))]\<rparr>)
                  else (case json_result r of
                          Inl e \<Rightarrow> (Inl e, st2)
                        | Inr v \<Rightarrow> (Inr (Return v), st2))))"

text \<open>One iteration: the \<^verbatim>\<open>try\<close> block with its two \<^verbatim>\<open>except\<close> clauses, lines 137 to 161.\<close>

definition attempt_step :: "server \<Rightarrow> http_method \<Rightarrow> int \<Rightarrow> nat \<Rightarrow> client \<Rightarrow> control \<times> client" where
  "attempt_step srv m max_retries attempt st =
     (case try_body srv m attempt st of
        (Inr c, st') \<Rightarrow> (c, st')
      | (Inl e, st') \<Rightarrow>
          if is_request_exception e
          then (Continue,
                if int attempt < max_retries - 1
                then st'\<lparr>effects := effects st' @ [Sleep (3 * (attempt + 1))]\<rparr>
                else st')
          else (Break, st'))"

text \<open>
  The loop \<^verbatim>\<open>for attempt in range(max_retries)\<close> over the values of \<^verbatim>\<open>attempt\<close> still to
  come. \<open>Some v\<close>: the loop was left by \<^verbatim>\<open>return v\<close>; \<open>None\<close>: it ended or was broken.
\<close>

fun retry_loop :: "server \<Rightarrow> http_method \<Rightarrow> int \<Rightarrow> nat list \<Rightarrow> client \<Rightarrow> json option \<times> client" where
  "retry_loop srv m max_retries [] st = (None, st)"
| "retry_loop srv m max_retries (attempt # rest) st =
     (case attempt_step srv m max_retries attempt st of
        (Return v, st') \<Rightarrow> (Some v, st')
      | (Break, st') \<Rightarrow> (None, st')
      | (Continue, st') \<Rightarrow> retry_loop srv m max_retries rest st')"

text \<open>
  \<^verbatim>\<open>_make_request(url, params, data, max_retries)\<close>. \<^verbatim>\<open>if data:\<close> picks POST for a non-empty
  string. The result \<open>JNull\<close> is Python's \<^verbatim>\<open>None\<close>. The function has no exceptional result:
  both \<^verbatim>\<open>except\<close> clauses together catch every \<^verbatim>\<open>Exception\<close> of the block.
\<close>

fun method_for :: "string option \<Rightarrow> http_method" where
  "method_for None = GET"
| "method_for (Some []) = GET"
| "method_for (Some (c # cs)) = POST"

definition make_request :: "server \<Rightarrow> string option \<Rightarrow> int \<Rightarrow> client \<Rightarrow> json \<times> client" where
  "make_request srv data max_retries st =
     (case retry_loop srv (method_for data) max_retries [0..<nat max_retries] st of
        (Some v, st') \<Rightarrow> (v, st')
      | (None, st') \<Rightarrow> (JNull, st'\<lparr>error_count := error_count st' + 1\<rparr>))"

subsection \<open>How an attempt ends\<close>

text \<open>
  The vocabulary of the properties below, read off the \<^verbatim>\<open>try\<close> block: the exception
  the block raises against a given behaviour of the session, if any, and the four ways
  an iteration can end.
\<close>

fun raised :: "send_result \<Rightarrow> exn option" where
  "raised (Raises e) = Some e"
| "raised (Responds r) =
     (case raise_for_status r of
        Some e \<Rightarrow> Some e
      | None \<Rightarrow>
          if status_code r = 429 then None
          else (case json_result r of Inl e \<Rightarrow> Some e | Inr v \<Rightarrow> None))"

text \<open>The 429 branch of lines 147 to 151 is taken.\<close>

fun rate_limited :: "send_result \<Rightarrow> bool" where
  "rate_limited (Raises e) = False"
| "rate_limited (Responds r) = (raise_for_status r = None \<and> status_code r = 429)"

text \<open>The block raises a \<^verbatim>\<open>RequestException\<close>: a transient network error.\<close>

definition transient :: "send_result \<Rightarrow> bool" where
  "transient x = (case raised x of Some e \<Rightarrow> is_request_exception e | None \<Rightarrow> False)"

text \<open>The block raises any other \<^verbatim>\<open>Exception\<close>: an unexpected failure.\<close>

definition unexpected :: "send_result \<Rightarrow> bool" where
  "unexpected x = (case raised x of Some e \<Rightarrow> \<not> is_request_exception e | None \<Rightarrow> False)"

text \<open>The block returns the parsed body \<open>v\<close>.\<close>

definition succeeds :: "send_result \<Rightarrow> json \<Rightarrow> bool" where
  "succeeds x v = (case x of
       Raises e \<Rightarrow> False
     | Responds r \<Rightarrow> raise_for_status r = None \<and> status_code r \<noteq> 429 \<and> json_result r = Inr v)"

text \<open>The iteration ends without leaving the loop.\<close>

definition retried :: "send_result \<Rightarrow> bool" where
  "retried x = (rate_limited x \<or> transient x)"

text \<open>The effects of iteration \<open>j\<close> of a call with \<open>max_retries\<close>, in closed form.\<close>

definition iteration_events :: "server \<Rightarrow> http_method \<Rightarrow> int \<Rightarrow> nat \<Rightarrow> event list" where
  "iteration_events srv m max_retries j =
     Request m j #
       (if rate_limited (srv j) then [Sleep (10 * (j + 1))]
        else if transient (srv j) \<and> int j < max_retries - 1 then [Sleep (3 * (j + 1))]
        else [])"

text \<open>The client after the iterations \<open>i\<close> to \<open>k - 1\<close>, none of which left the loop.\<close>

definition after_iterations :: "server \<Rightarrow> http_method \<Rightarrow> int \<Rightarrow> nat \<Rightarrow> nat \<Rightarrow> client \<Rightarrow> client" where
  "after_iterations srv m max_retries i k st =
     st\<lparr>request_count := request_count st + int (k - i),
        effects := effects st @ concat (map (iteration_events srv m max_retries) [i..<k])\<rparr>"

subsection \<open>\<^verbatim>\<open>get_residential_buildings\<close>\<close>

text \<open>\<^verbatim>\<open>obj.get(key, default)\<close>: only a dictionary has the method.\<close>

fun py_get :: "json \<Rightarrow> string \<Rightarrow> json \<Rightarrow> exn + json" where
  "py_get (JObj kvs) k d = Inr (case map_of kvs k of Some v \<Rightarrow> v | None \<Rightarrow> d)"
| "py_get _ k d = Inl AttributeError"

text \<open>\<^verbatim>\<open>obj[key]\<close> for a string key.\<close>

fun py_index :: "json \<Rightarrow> string \<Rightarrow> exn + json" where
  "py_index (JObj kvs) k = (case map_of kvs k of Some v \<Rightarrow> Inr v | None \<Rightarrow> Inl KeyError)"
| "py_index _ k = Inl TypeError"

text \<open>\<^verbatim>\<open>sub in s\<close> for two strings.\<close>

fun is_infix :: "string \<Rightarrow> string \<Rightarrow> bool" where
  "is_infix sub [] = (sub = [])"
| "is_infix sub (c # cs) = (take (length sub) (c # cs) = sub \<or> is_infix sub cs)"

text \<open>\<^verbatim>\<open>key in obj\<close> for a string key.\<close>

fun py_contains :: "string \<Rightarrow> json \<Rightarrow> exn + bool" where
  "py_contains k (JObj kvs) = Inr (map_of kvs k \<noteq> None)"
| "py_contains k (JArr xs) = Inr (JStr k \<in> set xs)"
| "py_contains k (JStr s) = Inr (is_infix k s)"
| "py_contains k _ = Inl TypeError"

text \<open>
  \<^verbatim>\<open>for element in obj\<close>: the items of a list, the keys of a dictionary, the characters of
  a string.
\<close>

fun py_iter :: "json \<Rightarrow> exn + json list" where
  "py_iter (JArr xs) = Inr xs"
| "py_iter (JObj kvs) = Inr (map (\<lambda>kv. JStr (fst kv)) kvs)"
| "py_iter (JStr s) = Inr (map (\<lambda>c. JStr [c]) s)"
| "py_iter _ = Inl TypeError"

text \<open>\<^verbatim>\<open>sep.join(items)\<close>: every item must be a string.\<close>

fun py_join :: "string \<Rightarrow> json list \<Rightarrow> exn + string" where
  "py_join sep [] = Inr []"
| "py_join sep [JStr s] = Inr s"
| "py_join sep (JStr s # x # xs) = bindE (py_join sep (x # xs)) (\<lambda>r. Inr (s @ sep @ r))"
| "py_join sep (_ # xs) = Inl TypeError"

type_synonym dict = "(string \<times> json) list"

text \<open>Lines 197 to 202: the coordinates of an element, \<open>None\<close> for \<^verbatim>\<open>continue\<close>.\<close>

definition coordinates :: "json \<Rightarrow> exn + (json \<times> json) option" where
  "coordinates element =
     bindE (py_index element ''type'') (\<lambda>ty.
       if ty = JStr ''node''
       then bindE (py_index element ''lat'') (\<lambda>lat.
            bindE (py_index element ''lon'') (\<lambda>lon. Inr (Some (lat, lon))))
       else bindE (py_contains ''center'' element) (\<lambda>has_center.
            if has_center
            then bindE (py_index element ''center'') (\<lambda>c1.
                 bindE (py_index c1 ''lat'') (\<lambda>lat.
                 bindE (py_index element ''center'') (\<lambda>c2.
                 bindE (py_index c2 ''lon'') (\<lambda>lon. Inr (Some (lat, lon))))))
            else Inr None))"

text \<open>Lines 204 to 212: the tag values that go into the address, in order.\<close>

definition address_parts :: "json \<Rightarrow> exn + json list" where
  "address_parts tags =
     bindE (py_contains ''addr:street'' tags) (\<lambda>b1.
     bindE (if b1 then bindE (py_index tags ''addr:street'') (\<lambda>v. Inr [v]) else Inr []) (\<lambda>p1.
     bindE (py_contains ''addr:housenumber'' tags) (\<lambda>b2.
     bindE (if b2 then bindE (py_index tags ''addr:housenumber'') (\<lambda>v. Inr (p1 @ [v])) else Inr p1) (\<lambda>p2.
     bindE (py_contains ''addr:postcode'' tags) (\<lambda>b3.
     bindE (if b3 then bindE (py_index tags ''addr:postcode'') (\<lambda>v. Inr (p2 @ [v])) else Inr p2) (\<lambda>p3.
     bindE (py_contains ''addr:city'' tags) (\<lambda>b4.
     if b4 then bindE (py_index tags ''addr:city'') (\<lambda>v. Inr (p3 @ [v])) else Inr p3)))))))"

text \<open>
  Lines 204 to 223: the address joined from the tag values that are not falsy, and the
  dictionary that is appended.
\<close>

definition building_record :: "json \<Rightarrow> json \<Rightarrow> json \<Rightarrow> json \<Rightarrow> exn + dict" where
  "building_record element tags lat lng =
     bindE (address_parts tags) (\<lambda>parts.
     bindE (py_join '', '' (filter truthy parts)) (\<lambda>address.
     bindE (py_index element ''id'') (\<lambda>osm_id.
     bindE (py_get tags ''building'' (JStr ''N/A'')) (\<lambda>building_type.
     bindE (py_get tags ''building:levels'' (JStr ''N/A'')) (\<lambda>levels.
     Inr [(''address'', JStr address),
          (''lat'', lat),
          (''lng'', lng),
          (''osm_id'', osm_id),
          (''building_type'', building_type),
          (''levels'', levels)])))))"

text \<open>
  The body of the \<^verbatim>\<open>try\<close> block of the element loop, lines 192 to 223. \<open>Inl e\<close>: the
  block raised \<open>e\<close>; \<open>Inr None\<close>: it ended in \<^verbatim>\<open>continue\<close>; \<open>Inr (Some b)\<close>: it appended the
  building \<open>b\<close>. The second \<^verbatim>\<open>tags.get\<close> of line 194 is not evaluated when the first
  value is falsy.
\<close>

definition parse_element :: "json \<Rightarrow> exn + dict option" where
  "parse_element element =
     bindE (py_get element ''tags'' (JObj [])) (\<lambda>tags.
     bindE (py_get tags ''addr:housenumber'' JNull) (\<lambda>housenumber.
     if \<not> truthy housenumber then Inr None
     else
     bindE (py_get tags ''addr:street'' JNull) (\<lambda>street.
     if \<not> truthy street then Inr None
     else
     bindE (coordinates element) (\<lambda>coords.
     case coords of
       None \<Rightarrow> Inr None
     | Some (lat, lng) \<Rightarrow>
         bindE (building_record element tags lat lng) (\<lambda>b. Inr (Some b))))))"

text \<open>
  The loop of lines 190 to 227 over the elements still to come, \<open>buildings\<close> being the
  list built so far. An exception in the block is caught by line 225 and the loop goes on.
\<close>

fun parse_elements :: "json list \<Rightarrow> dict list \<Rightarrow> dict list" where
  "parse_elements [] buildings = buildings"
| "parse_elements (element # rest) buildings =
     (case parse_element element of
        Inl e \<Rightarrow> parse_elements rest buildings
      | Inr None \<Rightarrow> parse_elements rest buildings
      | Inr (Some b) \<Rightarrow> parse_elements rest (buildings @ [b]))"

text \<open>
  The query of lines 170 to 180, from the rendered bounding box \<open>bbox\<close>
  (\<^verbatim>\<open>south,west,north,east\<close>) and the rendered \<open>limit\<close>. Layout white space is left out;
  the text is never empty, which is all that \<^verbatim>\<open>_make_request\<close> looks at. The model starts
  from the rendered texts: the bounds are floats, which always render, and \<open>limit\<close> is an
  integer that \<^verbatim>\<open>str\<close> accepts (otherwise line 170 raises before any request is made).
\<close>

definition nwr :: "string \<Rightarrow> string \<Rightarrow> string" where
  "nwr kind bbox =
     ''nwr['' @ [CHR 0x22] @ ''building'' @ [CHR 0x22] @ ''='' @ [CHR 0x22] @ kind @ [CHR 0x22]
       @ '']['' @ [CHR 0x22] @ ''addr:housenumber'' @ [CHR 0x22] @ '']('' @ bbox @ '');''"

definition overpass_query :: "string \<Rightarrow> string \<Rightarrow> string" where
  "overpass_query bbox limit =
     ''[out:json][timeout:30];('' @ nwr ''residential'' bbox @ nwr ''apartments'' bbox
       @ nwr ''house'' bbox @ '');out center '' @ limit @ '';>;out skel qt;''"

text \<open>
  Lines 185 to 230, from the value \<open>data\<close> that \<^verbatim>\<open>_make_request\<close> returned. Lines 185 and
  190 stand outside every \<^verbatim>\<open>try\<close>: an exception there leaves the method.
\<close>

definition buildings_of :: "json \<Rightarrow> exn + dict list" where
  "buildings_of data =
     (if \<not> truthy data then Inr []
      else bindE (py_contains ''elements'' data) (\<lambda>has_elements.
           if \<not> has_elements then Inr []
           else bindE (py_index data ''elements'') (\<lambda>elements.
                bindE (py_iter elements) (\<lambda>es. Inr (parse_elements es [])))))"

text \<open>\<^verbatim>\<open>get_residential_buildings(city, limit)\<close>, with the default \<^verbatim>\<open>max_retries\<close> of 2.\<close>

definition get_residential_buildings ::
  "server \<Rightarrow> string \<Rightarrow> string \<Rightarrow> client \<Rightarrow> (exn + dict list) \<times> client" where
  "get_residential_buildings srv bbox limit st =
     (case make_request srv (Some (overpass_query bbox limit)) 2 st of
        (data, st') \<Rightarrow> (buildings_of data, st'))"

text \<open>
  The vocabulary of the properties of the parser: a well-formed element. It is a dictionary
  whose tags are a dictionary with a house number and a street that are non-empty strings,
  and a postcode and a city that are absent, falsy or strings; it has an \<^verbatim>\<open>id\<close>; and it is
  a \<^verbatim>\<open>node\<close> with \<^verbatim>\<open>lat\<close> and \<^verbatim>\<open>lon\<close>, or of another type with a \<^verbatim>\<open>center\<close> that is a dictionary
  with \<^verbatim>\<open>lat\<close> and \<^verbatim>\<open>lon\<close>.
\<close>

definition nonempty_text :: "json option \<Rightarrow> bool" where
  "nonempty_text v = (case v of Some (JStr s) \<Rightarrow> s \<noteq> [] | _ \<Rightarrow> False)"

definition joinable :: "json option \<Rightarrow> bool" where
  "joinable v = (case v of None \<Rightarrow> True | Some (JStr s) \<Rightarrow> True | Some x \<Rightarrow> \<not> truthy x)"

definition has_coordinates :: "dict \<Rightarrow> bool" where
  "has_coordinates kvs =
     (case map_of kvs ''type'' of
        None \<Rightarrow> False
      | Some ty \<Rightarrow>
          if ty = JStr ''node'' then map_of kvs ''lat'' \<noteq> None \<and> map_of kvs ''lon'' \<noteq> None
          else (case map_of kvs ''center'' of
                  Some (JObj c) \<Rightarrow> map_of c ''lat'' \<noteq> None \<and> map_of c ''lon'' \<noteq> None
                | _ \<Rightarrow> False))"

definition well_formed :: "json \<Rightarrow> bool" where
  "well_formed e =
     (case e of
        JObj kvs \<Rightarrow>
          (case map_of kvs ''tags'' of
             Some (JObj ts) \<Rightarrow>
               nonempty_text (map_of ts ''addr:housenumber'')
               \<and> nonempty_text (map_of ts ''addr:street'')
               \<and> joinable (map_of ts ''addr:postcode'')
               \<and> joinable (map_of ts ''addr:city'')
               \<and> map_of kvs ''id'' \<noteq> None
               \<and> has_coordinates kvs
           | _ \<Rightarrow> False)
      | _ \<Rightarrow> False)"

section \<open>HousesManager\<close>

text \<open>
  The store: the text of the log file, and the set \<^verbatim>\<open>existing_addresses\<close>. Only strings ever
  enter the set (line 266 is reached after \<^verbatim>\<open>address.replace\<close> succeeded).
\<close>

record store =
  houses_file :: string
  existing_addresses :: "string set"

definition LF :: char where
  "LF = CHR 0x0A"

definition CR :: char where
  "CR = CHR 0x0D"

text \<open>\<^verbatim>\<open>__init__\<close>, lines 243 to 247: the two header lines, and no address seen.\<close>

definition header :: string where
  "header =
     ''Date | Country | City | Address | Latitude | Longitude | OSM_ID | Building_Type | Levels''
       @ [LF] @ replicate 100 (CHR ''='') @ [LF]"

definition init_store :: store where
  "init_store = \<lparr>houses_file = header, existing_addresses = {}\<rparr>"

text \<open>
  What the embedding does not compute: the text Python gives a number that has the format
  \<^verbatim>\<open>.6f\<close>, and what \<^verbatim>\<open>str(x)\<close> does for a number, a list or a dictionary: it returns a
  text or it raises (on CPython 3.11 and later \<^verbatim>\<open>ValueError\<close> for an integer with more digits
  than the interpreter's limit, by default 4300, also inside a list or a dictionary;
  \<^verbatim>\<open>RecursionError\<close> for a nesting that is too deep). The properties below hold for every
  such host.
\<close>

record host =
  fmt6f :: "json \<Rightarrow> string"
  str_of :: "json \<Rightarrow> exn + string"

text \<open>
  The format \<^verbatim>\<open>.6f\<close> converts an integer to a float first, rounding to the nearest double,
  ties to even. The largest finite double is \<open>2 ^ 1024 - 2 ^ 971\<close>, so from
  \<open>2 ^ 1024 - 2 ^ 970\<close> on the conversion raises \<^verbatim>\<open>OverflowError\<close>.
\<close>

definition float_overflow :: "int \<Rightarrow> bool" where
  "float_overflow n = (2 ^ 1024 - 2 ^ 970 \<le> \<bar>n\<bar>)"

text \<open>
  \<^verbatim>\<open>f"{x:.6f}"\<close>: floats, booleans and the integers in the range of a float have the format;
  a string does not know the code, and \<^verbatim>\<open>None\<close>, a list and a dictionary take no format.
\<close>

fun format_6f :: "host \<Rightarrow> json \<Rightarrow> exn + string" where
  "format_6f h (JInt n) =
     (if float_overflow n then Inl OverflowError else Inr (fmt6f h (JInt n)))"
| "format_6f h (JFloat q) = Inr (fmt6f h (JFloat q))"
| "format_6f h (JBool b) = Inr (fmt6f h (JBool b))"
| "format_6f h (JStr s) = Inl ValueError"
| "format_6f h _ = Inl TypeError"

text \<open>The values that have a text under \<^verbatim>\<open>.6f\<close>.\<close>

definition has_6f :: "json \<Rightarrow> bool" where
  "has_6f v = (case v of
       JInt n \<Rightarrow> \<not> float_overflow n
     | JFloat q \<Rightarrow> True
     | JBool b \<Rightarrow> True
     | _ \<Rightarrow> False)"

text \<open>\<^verbatim>\<open>f"{x}"\<close>: a string as it is, otherwise \<^verbatim>\<open>str(x)\<close>.\<close>

fun format_plain :: "host \<Rightarrow> json \<Rightarrow> exn + string" where
  "format_plain h (JStr s) = Inr s"
| "format_plain h JNull = Inr ''None''"
| "format_plain h (JBool b) = Inr (if b then ''True'' else ''False'')"
| "format_plain h x = str_of h x"

text \<open>\<^verbatim>\<open>address.replace('|', ',')\<close>.\<close>

definition replace_pipe :: "string \<Rightarrow> string" where
  "replace_pipe s = map (\<lambda>c. if c = CHR ''|'' then CHR '','' else c) s"

text \<open>\<^verbatim>\<open>data[key]\<close> for the dictionary \<open>data\<close>.\<close>

definition lookup :: "dict \<Rightarrow> string \<Rightarrow> exn + json" where
  "lookup data k = (case map_of data k of Some v \<Rightarrow> Inr v | None \<Rightarrow> Inl KeyError)"

text \<open>The f-string of line 261, its fields evaluated and formatted from left to right.\<close>

definition format_line ::
  "host \<Rightarrow> string \<Rightarrow> string \<Rightarrow> string \<Rightarrow> string \<Rightarrow> dict \<Rightarrow> exn + string" where
  "format_line h timestamp country city clean_address data =
     bindE (lookup data ''lat'') (\<lambda>lat.
     bindE (format_6f h lat) (\<lambda>lat_text.
     bindE (lookup data ''lng'') (\<lambda>lng.
     bindE (format_6f h lng) (\<lambda>lng_text.
     bindE (lookup data ''osm_id'') (\<lambda>osm_id.
     bindE (format_plain h osm_id) (\<lambda>osm_id_text.
     bindE (lookup data ''building_type'') (\<lambda>building_type.
     bindE (format_plain h building_type) (\<lambda>building_type_text.
     bindE (lookup data ''levels'') (\<lambda>levels.
     bindE (format_plain h levels) (\<lambda>levels_text.
     Inr (timestamp @ '' | '' @ country @ '' | '' @ city @ '' | '' @ clean_address @ '' | ''
            @ lat_text @ '' | '' @ lng_text @ '' | '' @ osm_id_text @ '' | ''
            @ building_type_text @ '' | '' @ levels_text @ [LF])))))))))))"

text \<open>
  The f-string of line 256 is evaluated before \<^verbatim>\<open>logging.debug\<close> is called:
  \<^verbatim>\<open>address[:50]\<close> raises for a value that cannot be sliced.
\<close>

fun reject_message :: "json \<Rightarrow> exn + bool" where
  "reject_message (JStr s) = Inr False"
| "reject_message (JArr xs) = Inr False"
| "reject_message _ = Inl TypeError"

text \<open>
  What the call finds outside the store: the text of \<^verbatim>\<open>datetime.now().strftime(...)\<close>, and
  whether opening the file and appending the line succeed. Otherwise the \<^verbatim>\<open>with\<close> block
  raises (\<^verbatim>\<open>OSError\<close>, or \<^verbatim>\<open>UnicodeEncodeError\<close> for a text that has no UTF-8 encoding) and the
  file is as it was.
\<close>

record moment =
  now :: string
  append_ok :: bool

text \<open>
  The body of the \<^verbatim>\<open>try\<close> block of \<^verbatim>\<open>add_house\<close>, lines 254 to 268. A list or a dictionary
  cannot be hashed for the test \<^verbatim>\<open>address in self.existing_addresses\<close>; any other value
  that is not a string is not in the set and has no \<^verbatim>\<open>replace\<close>.
\<close>

definition add_house_body ::
  "host \<Rightarrow> moment \<Rightarrow> string \<Rightarrow> string \<Rightarrow> dict \<Rightarrow> store \<Rightarrow> (exn + bool) \<times> store" where
  "add_house_body h env country city data st =
     (case lookup data ''address'' of
        Inl e \<Rightarrow> (Inl e, st)
      | Inr address \<Rightarrow>
          if \<not> truthy address then (reject_message address, st)
          else (case address of
                  JStr a \<Rightarrow>
                    if a \<in> existing_addresses st then (reject_message address, st)
                    else (case format_line h (now env) country city (replace_pipe a) data of
                            Inl e \<Rightarrow> (Inl e, st)
                          | Inr line \<Rightarrow>
                              if \<not> append_ok env then (Inl OSError, st)
                              else (Inr True,
                                    st\<lparr>houses_file := houses_file st @ line,
                                       existing_addresses := insert a (existing_addresses st)\<rparr>))
                | JArr xs \<Rightarrow> (Inl TypeError, st)
                | JObj kvs \<Rightarrow> (Inl TypeError, st)
                | _ \<Rightarrow> (Inl AttributeError, st)))"

text \<open>\<^verbatim>\<open>add_house(country, city, data)\<close>: line 269 turns every exception into \<^verbatim>\<open>False\<close>.\<close>

definition add_house ::
  "host \<Rightarrow> moment \<Rightarrow> string \<Rightarrow> string \<Rightarrow> dict \<Rightarrow> store \<Rightarrow> bool \<times> store" where
  "add_house h env country city data st =
     (case add_house_body h env country city data st of
        (Inr b, st') \<Rightarrow> (b, st')
      | (Inl e, st') \<Rightarrow> (False, st'))"

text \<open>
  \<^verbatim>\<open>f.readlines()\<close> of a file opened in text mode: a line ends with LF, CR or CR LF, each
  read as LF; \<open>cur\<close> is the line read so far.
\<close>

function readlines_from :: "string \<Rightarrow> string \<Rightarrow> string list" where
  "readlines_from cur [] = (if cur = [] then [] else [cur])"
| "readlines_from cur (c # cs) =
     (if c = LF then (cur @ [LF]) # readlines_from [] cs
      else if c = CR
      then (cur @ [LF]) # readlines_from [] (case cs of [] \<Rightarrow> [] | d # ds \<Rightarrow> if d = LF then ds else cs)
      else readlines_from (cur @ [c]) cs)"
  by pat_completeness auto
termination
  by (relation "measure (\<lambda>(cur, rest). length rest)") (auto split: list.splits)

definition readlines :: "string \<Rightarrow> string list" where
  "readlines s = readlines_from [] s"

text \<open>
  \<^verbatim>\<open>get_stats()\<close>; \<open>readable\<close> tells whether opening and reading the file succeed.
\<close>

definition get_stats :: "bool \<Rightarrow> store \<Rightarrow> (string \<times> int) list" where
  "get_stats readable st =
     (if readable then [(''total'', max 0 (int (length (readlines (houses_file st))) - 2))]
      else [(''total'', 0)])"

section \<open>Sequences of calls and the reader of the log\<close>

text \<open>One call of \<^verbatim>\<open>add_house\<close>: what it finds outside, and its arguments.\<close>

record call =
  call_env :: moment
  call_country :: string
  call_city :: string
  call_data :: dict

definition add_call :: "host \<Rightarrow> call \<Rightarrow> store \<Rightarrow> bool \<times> store" where
  "add_call h c st = add_house h (call_env c) (call_country c) (call_city c) (call_data c) st"

text \<open>A sequence of calls on one store: the results in order, and the store at the end.\<close>

fun add_houses :: "host \<Rightarrow> call list \<Rightarrow> store \<Rightarrow> bool list \<times> store" where
  "add_houses h [] st = ([], st)"
| "add_houses h (c # cs) st =
     (case add_call h c st of
        (r, st') \<Rightarrow> (case add_houses h cs st' of (rs, st'') \<Rightarrow> (r # rs, st'')))"

text \<open>
  \<^verbatim>\<open>s.split(sep)\<close> for a separator that is not empty, as a reader of the log applies it
  with \<^verbatim>\<open>" | "\<close>; \<open>cur\<close> is the field read so far.
\<close>

function split_from :: "string \<Rightarrow> string \<Rightarrow> string \<Rightarrow> string list" where
  "split_from sep cur [] = [cur]"
| "split_from sep cur (c # cs) =
     (if sep \<noteq> [] \<and> take (length sep) (c # cs) = sep
      then cur # split_from sep [] (drop (length sep - 1) cs)
      else split_from sep (cur @ [c]) cs)"
  by pat_completeness auto
termination
  by (relation "measure (\<lambda>(sep, cur, rest). length rest)") auto

definition py_split :: "string \<Rightarrow> string \<Rightarrow> string list" where
  "py_split sep s = split_from sep [] s"

text \<open>
  The vocabulary of the properties of the store. What a call would put into a store that has
  seen no address: the address and the line, when the address is a string that is not empty,
  line 261 formats and the append succeeds.
\<close>

definition accept_line ::
  "host \<Rightarrow> moment \<Rightarrow> string \<Rightarrow> string \<Rightarrow> dict \<Rightarrow> (string \<times> string) option" where
  "accept_line h env country city data =
     (case lookup data ''address'' of
        Inr (JStr a) \<Rightarrow>
          if a = [] then None
          else (case format_line h (now env) country city (replace_pipe a) data of
                  Inr line \<Rightarrow> if append_ok env then Some (a, line) else None
                | Inl e \<Rightarrow> None)
      | _ \<Rightarrow> None)"

definition accept_call :: "host \<Rightarrow> call \<Rightarrow> (string \<times> string) option" where
  "accept_call h c = accept_line h (call_env c) (call_country c) (call_city c) (call_data c)"

text \<open>The calls of a sequence that returned \<^verbatim>\<open>True\<close> with the address \<open>a\<close>.\<close>

definition accepted_with :: "string \<Rightarrow> call list \<Rightarrow> bool list \<Rightarrow> (call \<times> bool) list" where
  "accepted_with a cs rs =
     filter (\<lambda>cr. snd cr \<and> lookup (call_data (fst cr)) ''address'' = Inr (JStr a)) (zip cs rs)"

text \<open>A text without the pipe character; a line whose only line break is its last character.\<close>

definition pipe_free :: "string \<Rightarrow> bool" where
  "pipe_free s = (CHR ''|'' \<notin> set s)"

definition unbroken :: "string \<Rightarrow> bool" where
  "unbroken line = (line \<noteq> [] \<and> last line = LF \<and> LF \<notin> set (butlast line) \<and> CR \<notin> set (butlast line))"

section \<open>Example inputs\<close>

text \<open>
  A response with three elements: a node and a way that carry house number and street, and
  a node without a street; and the two buildings parsed from it.
\<close>

definition berlin_node :: dict where
  "berlin_node =
     [(''type'', JStr ''node''), (''id'', JInt 101),
      (''lat'', JFloat (5252 / 100)), (''lon'', JFloat (134 / 10)),
      (''tags'', JObj [(''building'', JStr ''residential''), (''addr:housenumber'', JStr ''12''),
                      (''addr:street'', JStr ''Muster Str''), (''addr:postcode'', JStr ''10115''),
                      (''addr:city'', JStr ''Berlin''), (''building:levels'', JStr ''3'')])]"

definition berlin_way :: dict where
  "berlin_way =
     [(''type'', JStr ''way''), (''id'', JInt 102),
      (''center'', JObj [(''lat'', JFloat (5253 / 100)), (''lon'', JFloat (1341 / 100))]),
      (''tags'', JObj [(''building'', JStr ''house''), (''addr:housenumber'', JStr ''7''),
                      (''addr:street'', JStr ''Ring'')])]"

definition berlin_no_street_tags :: dict where
  "berlin_no_street_tags = [(''building'', JStr ''house''), (''addr:housenumber'', JStr ''9'')]"

definition berlin_no_street :: dict where
  "berlin_no_street =
     [(''type'', JStr ''node''), (''id'', JInt 103),
      (''lat'', JFloat (5254 / 100)), (''lon'', JFloat (1342 / 100)),
      (''tags'', JObj berlin_no_street_tags)]"

definition berlin_payload :: dict where
  "berlin_payload =
     [(''elements'', JArr [JObj berlin_node, JObj berlin_no_street, JObj berlin_way])]"

definition berlin_server :: server where
  "berlin_server = (\<lambda>i. Responds (http_response 200 (Inr (JObj berlin_payload))))"

definition berlin_bbox :: string where
  "berlin_bbox = ''52.35,13.15,52.65,13.65''"

definition muster_str_12 :: dict where
  "muster_str_12 =
     [(''address'', JStr ''Muster Str, 12, 10115, Berlin''),
      (''lat'', JFloat (5252 / 100)), (''lng'', JFloat (134 / 10)),
      (''osm_id'', JInt 101), (''building_type'', JStr ''residential''),
      (''levels'', JStr ''3'')]"

definition ring_7 :: dict where
  "ring_7 =
     [(''address'', JStr ''Ring, 7''),
      (''lat'', JFloat (5253 / 100)), (''lng'', JFloat (1341 / 100)),
      (''osm_id'', JInt 102), (''building_type'', JStr ''house''),
      (''levels'', JStr ''N/A'')]"

text \<open>
  A host that renders every coordinate and every value that is not a string as the sample
  line of the log format does, a moment at which the append succeeds and one at which it
  fails, and calls with four records: one with a plain address, one whose address and whose
  levels contain pipes, one whose address contains a pipe only, and one whose address
  contains a line break.
\<close>

definition example_host :: host where
  "example_host = \<lparr>fmt6f = (\<lambda>x. ''52.520000''), str_of = (\<lambda>x. Inr ''123456789'')\<rparr>"

definition noon :: moment where
  "noon = \<lparr>now = ''2024-01-01 12:00:00'', append_ok = True\<rparr>"

definition disk_full :: moment where
  "disk_full = \<lparr>now = ''2024-01-01 12:00:00'', append_ok = False\<rparr>"

definition record_at :: "string \<Rightarrow> string \<Rightarrow> dict" where
  "record_at address levels =
     [(''address'', JStr address), (''lat'', JFloat (5252 / 100)), (''lng'', JFloat (134 / 10)),
      (''osm_id'', JInt 123456789), (''building_type'', JStr ''residential''),
      (''levels'', JStr levels)]"

definition call_at :: "moment \<Rightarrow> string \<Rightarrow> string \<Rightarrow> call" where
  "call_at env address levels =
     \<lparr>call_env = env, call_country = ''Germany'', call_city = ''Berlin'',
      call_data = record_at address levels\<rparr>"

definition broken_address :: string where
  "broken_address = ''Main St'' @ [LF] @ ''1''"

definition broken_line :: string where
  "broken_line =
     ''2024-01-01 12:00:00 | Germany | Berlin | Main St'' @ [LF]
       @ ''1 | 52.520000 | 52.520000 | 123456789 | residential | 3'' @ [LF]"

definition main_st_line :: string where
  "main_st_line =
     ''2024-01-01 12:00:00 | Germany | Berlin | Main St, 1 | 52.520000 | 52.520000 | 123456789 | residential | 3''
       @ [LF]"

section \<open>Properties of the request loop\<close>

subsection \<open>One iteration\<close>


lemma attempt_step_retried:
  "retried (srv a) \<Longrightarrow>
   attempt_step srv m mr a st = (Continue, after_iterations srv m mr a (Suc a) st)"
  by (cases "srv a")
     (auto simp: attempt_step_def try_body_def iteration_events_def transient_def retried_def
                 after_iterations_def Let_def
           split: option.splits sum.splits if_splits)

lemma attempt_step_unexpected:
  "unexpected (srv a) \<Longrightarrow>
   attempt_step srv m mr a st =
     (Break, st\<lparr>request_count := request_count st + 1, effects := effects st @ [Request m a]\<rparr>)"
  by (cases "srv a")
     (auto simp: attempt_step_def try_body_def unexpected_def Let_def
           split: option.splits sum.splits if_splits)

lemma attempt_step_succeeds:
  "succeeds (srv a) v \<Longrightarrow>
   attempt_step srv m mr a st =
     (Return v, st\<lparr>request_count := request_count st + 1, effects := effects st @ [Request m a]\<rparr>)"
  by (cases "srv a")
     (auto simp: attempt_step_def try_body_def succeeds_def Let_def
           split: option.splits sum.splits if_splits)

lemma outcome_cases: "retried x \<or> unexpected x \<or> (\<exists>v. succeeds x v)"
  by (cases x)
     (auto simp: retried_def unexpected_def transient_def succeeds_def
           split: option.splits sum.splits if_splits)

lemma transient_not_rate_limited: "transient x \<Longrightarrow> \<not> rate_limited x"
  by (cases x) (auto simp: transient_def split: option.splits)

lemma after_iterations_same [simp]: "after_iterations srv m mr i i st = st"
  by (simp add: after_iterations_def)

lemma after_iterations_Suc:
  "i \<le> k \<Longrightarrow> after_iterations srv m mr k (Suc k) (after_iterations srv m mr i k st)
     = after_iterations srv m mr i (Suc k) st"
  by (simp add: after_iterations_def)

lemma retry_loop_skip:
  "i \<le> k \<Longrightarrow> k \<le> n \<Longrightarrow> (\<forall>j. i \<le> j \<and> j < k \<longrightarrow> retried (srv j)) \<Longrightarrow>
   retry_loop srv m mr [i..<n] st = retry_loop srv m mr [k..<n] (after_iterations srv m mr i k st)"
proof (induction k)
  case 0
  then show ?case by simp
next
  case (Suc k)
  show ?case
  proof (cases "i = Suc k")
    case True
    then show ?thesis by simp
  next
    case False
    with Suc.prems have ik: "i \<le> k" and kn: "k < n" and rk: "retried (srv k)" by auto
    have "retry_loop srv m mr [i..<n] st
            = retry_loop srv m mr [k..<n] (after_iterations srv m mr i k st)"
      using Suc.IH ik kn Suc.prems(3) by simp
    also have "[k..<n] = k # [Suc k..<n]"
      using kn by (simp add: upt_conv_Cons)
    finally show ?thesis
      using rk ik by (simp add: attempt_step_retried after_iterations_Suc)
  qed
qed

lemma attempt_step_frame:
  "\<exists>tl. effects (snd (attempt_step srv m mr a st)) = effects st @ Request m a # tl
        \<and> filter is_request tl = []
        \<and> request_count (snd (attempt_step srv m mr a st)) = request_count st + 1
        \<and> error_count (snd (attempt_step srv m mr a st)) = error_count st"
  using outcome_cases [of "srv a"]
  by (auto simp: attempt_step_retried attempt_step_unexpected attempt_step_succeeds
                 after_iterations_def iteration_events_def)

lemma retry_loop_frame:
  "\<exists>new. effects (snd (retry_loop srv m mr as st)) = effects st @ new
         \<and> request_count (snd (retry_loop srv m mr as st))
             = request_count st + int (length (filter is_request new))
         \<and> error_count (snd (retry_loop srv m mr as st)) = error_count st"
proof (induction as arbitrary: st)
  case Nil
  then show ?case by simp
next
  case (Cons a as)
  obtain c st' where step: "attempt_step srv m mr a st = (c, st')"
    by (cases "attempt_step srv m mr a st")
  from attempt_step_frame [of srv m mr a st] step
  obtain tl where tl: "effects st' = effects st @ Request m a # tl" "filter is_request tl = []"
    "request_count st' = request_count st + 1" "error_count st' = error_count st"
    by auto
  show ?case
  proof (cases c)
    case (Return v)
    with step tl show ?thesis by simp
  next
    case Break
    with step tl show ?thesis by simp
  next
    case Continue
    from Cons.IH [of st'] obtain new where
      new: "effects (snd (retry_loop srv m mr as st')) = effects st' @ new"
        "request_count (snd (retry_loop srv m mr as st'))
             = request_count st' + int (length (filter is_request new))"
        "error_count (snd (retry_loop srv m mr as st')) = error_count st'"
      by blast
    with step tl Continue show ?thesis by simp
  qed
qed

lemma retry_loop_head:
  "\<exists>post. effects (snd (retry_loop srv m mr (a # as) st)) = effects st @ Request m a # post"
proof -
  obtain c st' where step: "attempt_step srv m mr a st = (c, st')"
    by (cases "attempt_step srv m mr a st")
  from attempt_step_frame [of srv m mr a st] step
  obtain tl where tl: "effects st' = effects st @ Request m a # tl" by auto
  from retry_loop_frame [of srv m mr as st'] obtain new where
    "effects (snd (retry_loop srv m mr as st')) = effects st' @ new" by blast
  with step tl show ?thesis by (cases c) auto
qed

lemma requests_before:
  "length (filter is_request (concat (map (iteration_events srv m mr) [0..<i]))) = i"
  by (induction i) (auto simp: iteration_events_def)

subsection \<open>The whole call\<close>

lemma make_request_reach:
  assumes "i \<le> nat mr" and "\<forall>j<i. retried (srv j)"
  shows "retry_loop srv m mr [0..<nat mr] st
           = retry_loop srv m mr [i..<nat mr] (after_iterations srv m mr 0 i st)"
  using retry_loop_skip [of 0 i "nat mr" srv m mr st] assms by simp

lemma make_request_proj:
  "effects (snd (make_request srv data mr st))
     = effects (snd (retry_loop srv (method_for data) mr [0..<nat mr] st))"
  "request_count (snd (make_request srv data mr st))
     = request_count (snd (retry_loop srv (method_for data) mr [0..<nat mr] st))"
  "error_count (snd (make_request srv data mr st))
     = error_count (snd (retry_loop srv (method_for data) mr [0..<nat mr] st))
         + (if fst (retry_loop srv (method_for data) mr [0..<nat mr] st) = None then 1 else 0)"
  "fst (make_request srv data mr st)
     = (case fst (retry_loop srv (method_for data) mr [0..<nat mr] st) of
          Some v \<Rightarrow> v | None \<Rightarrow> JNull)"
  by (auto simp: make_request_def split: prod.splits option.splits)

lemma get_residential_buildings_proj:
  "fst (get_residential_buildings srv bbox limit st)
     = buildings_of (fst (make_request srv (Some (overpass_query bbox limit)) 2 st))"
  "snd (get_residential_buildings srv bbox limit st)
     = snd (make_request srv (Some (overpass_query bbox limit)) 2 st)"
  by (simp_all add: get_residential_buildings_def case_prod_beta)

lemma loop_gives_up:
  assumes "k \<le> nat mr" and "\<forall>j<k. retried (srv j)" and "k = nat mr \<or> unexpected (srv k)"
  shows "retry_loop srv m mr [0..<nat mr] st
           = (None, (after_iterations srv m mr 0 k st)
                \<lparr>request_count := request_count st + int k + (if k = nat mr then 0 else 1),
                 effects := effects st @ concat (map (iteration_events srv m mr) [0..<k])
                              @ (if k = nat mr then [] else [Request m k])\<rparr>)"
proof (cases "k = nat mr")
  case True
  then show ?thesis
    using make_request_reach [of k mr srv m st] assms(1,2)
    by (simp add: after_iterations_def)
next
  case False
  with assms have kn: "k < nat mr" and un: "unexpected (srv k)" by auto
  then have "[k..<nat mr] = k # [Suc k..<nat mr]" by (simp add: upt_conv_Cons)
  then show ?thesis
    using make_request_reach [of k mr srv m st] assms(1,2) un False
    by (simp add: attempt_step_unexpected after_iterations_def)
qed

lemma buildings_of_None: "buildings_of JNull = Inr []"
  by (simp add: buildings_of_def)

text \<open>
  A response object whose \<^verbatim>\<open>raise_for_status()\<close> returns and whose status code is 429 (a
  test double; no response of the \<^verbatim>\<open>requests\<close> library is one) takes the branch of lines
  147 to 151: the call sleeps ten times the number of the attempt and goes on with the next
  iteration, if there is one.
\<close>

lemma rate_limited_wait:
  assumes "i < nat max_retries" and "\<forall>j<i. retried (srv j)" and "rate_limited (srv i)"
  shows "\<exists>pre post.
           length (filter is_request pre) = i
           \<and> effects (snd (make_request srv data max_retries st))
               = effects st @ pre @ Request (method_for data) i # Sleep (10 * (i + 1)) #
                   (if int i < max_retries - 1 then Request (method_for data) (i + 1) # post
                    else [])"
proof -
  let ?m = "method_for data"
  let ?n = "nat max_retries"
  let ?pre = "concat (map (iteration_events srv ?m max_retries) [0..<i])"
  let ?st' = "after_iterations srv ?m max_retries 0 (Suc i) st"
  have "retried (srv i)" using assms(3) by (simp add: retried_def)
  then have all: "\<forall>j<Suc i. retried (srv j)" using assms(2) by (auto simp: less_Suc_eq)
  have loop: "retry_loop srv ?m max_retries [0..<?n] st
                = retry_loop srv ?m max_retries [Suc i..<?n] ?st'"
    using make_request_reach [of "Suc i" max_retries srv ?m st] assms(1) all by simp
  have eff: "effects ?st' = effects st @ ?pre @ [Request ?m i, Sleep (10 * (i + 1))]"
    using assms(3) by (simp add: after_iterations_def iteration_events_def)
  show ?thesis
  proof (cases "int i < max_retries - 1")
    case True
    then have "[Suc i..<?n] = Suc i # [Suc (Suc i)..<?n]" by (simp add: upt_conv_Cons)
    with retry_loop_head [of srv ?m max_retries "Suc i" "[Suc (Suc i)..<?n]" ?st']
    obtain post where
      "effects (snd (retry_loop srv ?m max_retries [Suc i..<?n] ?st'))
         = effects ?st' @ Request ?m (Suc i) # post"
      by auto
    with loop eff True
    have "effects (snd (make_request srv data max_retries st))
            = effects st @ ?pre @ Request ?m i # Sleep (10 * (i + 1)) #
                (if int i < max_retries - 1 then Request ?m (i + 1) # post else [])"
      by (simp add: make_request_proj)
    with requests_before [of srv ?m max_retries i] show ?thesis by blast
  next
    case False
    with assms(1) have "[Suc i..<?n] = []" by simp
    with loop eff False
    have "effects (snd (make_request srv data max_retries st))
            = effects st @ ?pre @ Request ?m i # Sleep (10 * (i + 1)) #
                (if int i < max_retries - 1 then Request ?m (i + 1) # [] else [])"
      by (simp add: make_request_proj)
    with requests_before [of srv ?m max_retries i] show ?thesis by blast
  qed
qed

text \<open>
  Claim C1, at the input where the code departs from it. The service answers every attempt
  with HTTP 429. \<^verbatim>\<open>raise_for_status()\<close> of line 145 raises \<^verbatim>\<open>HTTPError\<close> before line 147
  compares the status code, so the 429 branch is not taken: the answer is handled as a
  network error, the call sleeps 3 seconds (not 10) after the first attempt, nothing after
  the second, and returns \<^verbatim>\<open>None\<close>.
\<close>

theorem rate_limit_response_is_network_error:
  "\<not> rate_limited (Responds (http_response 429 body))
   \<and> transient (Responds (http_response 429 body))
   \<and> make_request (\<lambda>i. Responds (http_response 429 body)) (Some ''q'') 2 new_client
       = (JNull, \<lparr>request_count = 2, error_count = 1,
                  effects = [Request POST 0, Sleep 3, Request POST 1]\<rparr>)"
  by (simp add: make_request_def new_client_def attempt_step_def try_body_def http_response_def
                transient_def upt_rec)

text \<open>
  Claim C4. When every attempt of the call ends in a retry (the attempts are exhausted), or
  the attempts before attempt \<open>k\<close> do and attempt \<open>k\<close> raises an unexpected failure (retrying
  is aborted), \<^verbatim>\<open>_make_request\<close> returns \<^verbatim>\<open>None\<close> and \<^verbatim>\<open>error_count\<close> has grown by exactly one;
  the result is a value, no exception leaves the call. \<^verbatim>\<open>get_residential_buildings\<close>, which
  calls with two attempts, then returns the empty list.
\<close>

theorem gives_up_returns_none:
  assumes "k \<le> nat max_retries" and "\<forall>j<k. retried (srv j)"
    and "k = nat max_retries \<or> unexpected (srv k)"
  shows "fst (make_request srv data max_retries st) = JNull
         \<and> error_count (snd (make_request srv data max_retries st)) = error_count st + 1
         \<and> (max_retries = 2 \<longrightarrow>
              fst (get_residential_buildings srv bbox limit st) = Inr []
              \<and> error_count (snd (get_residential_buildings srv bbox limit st))
                  = error_count st + 1)"
proof -
  have loop: "fst (retry_loop srv m max_retries [0..<nat max_retries] st) = None" for m
    using loop_gives_up [of k max_retries srv m st] assms by simp
  have err: "error_count (snd (retry_loop srv m max_retries [0..<nat max_retries] st))
               = error_count st" for m
    using retry_loop_frame [of srv m max_retries "[0..<nat max_retries]" st] by blast
  have a: "fst (make_request srv d max_retries st) = JNull" for d
    using loop by (simp add: make_request_proj)
  have b: "error_count (snd (make_request srv d max_retries st)) = error_count st + 1" for d
    using loop err by (simp add: make_request_proj)
  have c: "max_retries = 2 \<Longrightarrow> fst (get_residential_buildings srv bbox limit st) = Inr []"
    using a [of "Some (overpass_query bbox limit)"]
    by (simp add: get_residential_buildings_proj buildings_of_None)
  have d: "max_retries = 2 \<Longrightarrow>
           error_count (snd (get_residential_buildings srv bbox limit st)) = error_count st + 1"
    using b [of "Some (overpass_query bbox limit)"]
    by (simp add: get_residential_buildings_proj)
  from a b c d show ?thesis by blast
qed

theorem gives_up_returns_none_witness:
  "fst (make_request (\<lambda>i. if i = 0 then Raises RequestException else Raises KeyError)
          (Some ''q'') 2 new_client) = JNull
   \<and> error_count (snd (make_request (\<lambda>i. if i = 0 then Raises RequestException else Raises KeyError)
          (Some ''q'') 2 new_client)) = 1
   \<and> fst (get_residential_buildings (\<lambda>i. if i = 0 then Raises RequestException else Raises KeyError)
          ''52.35,13.15,52.65,13.65'' ''4'' new_client) = Inr []
   \<and> error_count (snd (get_residential_buildings
          (\<lambda>i. if i = 0 then Raises RequestException else Raises KeyError)
          ''52.35,13.15,52.65,13.65'' ''4'' new_client)) = 1"
  using gives_up_returns_none [of 1 2 "\<lambda>i. if i = 0 then Raises RequestException else Raises KeyError"
          "Some ''q''" new_client "''52.35,13.15,52.65,13.65''" "''4''"]
  by (simp add: retried_def transient_def unexpected_def new_client_def)

text \<open>
  Claim C5. If attempt \<open>i\<close> of a call is made and raises an exception that is not a
  \<^verbatim>\<open>RequestException\<close>, the request of attempt \<open>i\<close> is the last effect of the call: \<open>i + 1\<close>
  requests were sent in all, no sleep and no further attempt follow, and the call returns
  \<^verbatim>\<open>None\<close>.
\<close>

theorem unexpected_failure_stops_retrying:
  assumes "i < nat max_retries" and "\<forall>j<i. retried (srv j)" and "unexpected (srv i)"
  shows "fst (make_request srv data max_retries st) = JNull
         \<and> request_count (snd (make_request srv data max_retries st))
             = request_count st + int i + 1
         \<and> (\<exists>pre. length (filter is_request pre) = i
                \<and> effects (snd (make_request srv data max_retries st))
                    = effects st @ pre @ [Request (method_for data) i])"
proof -
  have "i \<noteq> nat max_retries" using assms(1) by simp
  with loop_gives_up [of i max_retries srv "method_for data" st] assms
  have "retry_loop srv (method_for data) max_retries [0..<nat max_retries] st
          = (None, (after_iterations srv (method_for data) max_retries 0 i st)
               \<lparr>request_count := request_count st + int i + 1,
                effects := effects st
                  @ concat (map (iteration_events srv (method_for data) max_retries) [0..<i])
                  @ [Request (method_for data) i]\<rparr>)"
    by simp
  then show ?thesis
    using requests_before [of srv "method_for data" max_retries i]
    by (auto simp: make_request_proj)
qed

theorem unexpected_failure_stops_retrying_witness:
  "fst (make_request (\<lambda>i. Raises ValueError) None 3 new_client) = JNull
   \<and> request_count (snd (make_request (\<lambda>i. Raises ValueError) None 3 new_client)) = 1
   \<and> (\<exists>pre. length (filter is_request pre) = 0
          \<and> effects (snd (make_request (\<lambda>i. Raises ValueError) None 3 new_client))
              = pre @ [Request GET 0])"
  using unexpected_failure_stops_retrying [of 0 3 "\<lambda>i. Raises ValueError" None new_client]
  by (simp add: unexpected_def new_client_def)

text \<open>
  Claim C8. If attempt \<open>i\<close> (counted from 0, so attempt number \<open>i + 1\<close>) of a call with
  \<^verbatim>\<open>max_retries\<close> attempts is made and fails with a transient network error, then the call
  sleeps \<open>3 * (i + 1)\<close> and then sends the request of the next attempt; after the final
  attempt, \<open>i = max_retries - 1\<close>, the request is the last effect: no sleep follows.
\<close>

theorem transient_wait:
  assumes "i < nat max_retries" and "\<forall>j<i. retried (srv j)" and "transient (srv i)"
  shows "\<exists>pre post.
           length (filter is_request pre) = i
           \<and> effects (snd (make_request srv data max_retries st))
               = effects st @ pre @ Request (method_for data) i #
                   (if int i < max_retries - 1
                    then Sleep (3 * (i + 1)) # Request (method_for data) (i + 1) # post
                    else [])"
proof -
  let ?m = "method_for data"
  let ?n = "nat max_retries"
  let ?pre = "concat (map (iteration_events srv ?m max_retries) [0..<i])"
  let ?st_i = "after_iterations srv ?m max_retries 0 i st"
  have ri: "retried (srv i)" using assms(3) by (simp add: retried_def)
  have all: "\<forall>j<Suc i. retried (srv j)" using assms(2) ri by (auto simp: less_Suc_eq)
  have loop: "retry_loop srv ?m max_retries [0..<?n] st
                = retry_loop srv ?m max_retries [Suc i..<?n]
                    (after_iterations srv ?m max_retries 0 (Suc i) st)"
    using make_request_reach [of "Suc i" max_retries srv ?m st] assms(1) all by simp
  have eff: "effects (after_iterations srv ?m max_retries 0 (Suc i) st)
               = effects st @ ?pre @ Request ?m i #
                   (if int i < max_retries - 1 then [Sleep (3 * (i + 1))] else [])"
    using assms(3) transient_not_rate_limited [OF assms(3)]
    by (simp add: after_iterations_def iteration_events_def)
  have mr_eff: "effects (snd (make_request srv data max_retries st))
                  = effects (snd (retry_loop srv ?m max_retries [0..<?n] st))"
    by (simp add: make_request_proj)
  show ?thesis
  proof (cases "int i < max_retries - 1")
    case True
    then have "Suc i < ?n" by linarith
    then have "[Suc i..<?n] = Suc i # [Suc (Suc i)..<?n]" by (simp add: upt_conv_Cons)
    with retry_loop_head [of srv ?m max_retries "Suc i" "[Suc (Suc i)..<?n]"
                             "after_iterations srv ?m max_retries 0 (Suc i) st"]
    obtain post where
      "effects (snd (retry_loop srv ?m max_retries [Suc i..<?n]
                       (after_iterations srv ?m max_retries 0 (Suc i) st)))
         = effects (after_iterations srv ?m max_retries 0 (Suc i) st) @ Request ?m (Suc i) # post"
      by auto
    with loop eff mr_eff True
    have "effects (snd (make_request srv data max_retries st))
            = effects st @ ?pre @ Request ?m i #
                (if int i < max_retries - 1
                 then Sleep (3 * (i + 1)) # Request ?m (i + 1) # post else [])"
      by simp
    with requests_before [of srv ?m max_retries i] show ?thesis by blast
  next
    case False
    with assms(1) have "Suc i = ?n" by linarith
    then have "[Suc i..<?n] = []" by simp
    with loop eff mr_eff False
    have "effects (snd (make_request srv data max_retries st))
            = effects st @ ?pre @ Request ?m i #
                (if int i < max_retries - 1
                 then Sleep (3 * (i + 1)) # Request ?m (i + 1) # [] else [])"
      by simp
    with requests_before [of srv ?m max_retries i] show ?thesis by blast
  qed
qed

theorem transient_wait_witness:
  "\<exists>pre post.
     length (filter is_request pre) = 0
     \<and> effects (snd (make_request (\<lambda>i. Raises RequestException) (Some ''q'') 2 new_client))
         = effects new_client @ pre @ [Request POST 0, Sleep 3, Request POST 1] @ post"
  using transient_wait [of 0 2 "\<lambda>i. Raises RequestException" "Some ''q''" new_client]
  by (simp add: transient_def)

text \<open>
  Claim C9. Every iteration of the retry loop adds exactly one to \<^verbatim>\<open>request_count\<close>, however
  it ends; a call adds to the counter exactly the number of requests it sent, one for each
  attempt it made.
\<close>

theorem request_count_per_attempt:
  "request_count (snd (attempt_step srv m max_retries attempt st)) = request_count st + 1
   \<and> (\<exists>new. effects (snd (make_request srv data max_retries st)) = effects st @ new
          \<and> request_count (snd (make_request srv data max_retries st))
               = request_count st + int (length (filter is_request new)))"
proof -
  have one: "request_count (snd (attempt_step srv m max_retries attempt st)) = request_count st + 1"
    using attempt_step_frame [of srv m max_retries attempt st] by blast
  obtain new where new:
    "effects (snd (retry_loop srv (method_for data) max_retries [0..<nat max_retries] st))
       = effects st @ new"
    "request_count (snd (retry_loop srv (method_for data) max_retries [0..<nat max_retries] st))
       = request_count st + int (length (filter is_request new))"
    using retry_loop_frame [of srv "method_for data" max_retries "[0..<nat max_retries]" st]
    by blast
  have "effects (snd (make_request srv data max_retries st)) = effects st @ new
        \<and> request_count (snd (make_request srv data max_retries st))
             = request_count st + int (length (filter is_request new))"
    using new by (simp add: make_request_proj)
  with one show ?thesis by blast
qed

theorem request_count_per_attempt_witness:
  "request_count (snd (attempt_step (\<lambda>i. Raises RequestException) GET 2 0 new_client)) = 1
   \<and> (\<exists>new. effects (snd (make_request (\<lambda>i. Raises RequestException) None 2 new_client)) = new
          \<and> request_count (snd (make_request (\<lambda>i. Raises RequestException) None 2 new_client))
               = int (length (filter is_request new)))"
  using request_count_per_attempt [of "\<lambda>i. Raises RequestException" GET 2 0 new_client None]
  by (simp add: new_client_def)

section \<open>Properties of the element parser\<close>

lemma bindE_Inr: "bindE m f = Inr y \<longleftrightarrow> (\<exists>x. m = Inr x \<and> f x = Inr y)"
  by (cases m) auto

lemma py_get_Inr:
  "py_get obj k d = Inr v \<longleftrightarrow>
     (\<exists>kvs. obj = JObj kvs \<and> v = (case map_of kvs k of Some w \<Rightarrow> w | None \<Rightarrow> d))"
  by (cases obj) auto

lemma py_index_Inr:
  "py_index obj k = Inr v \<longleftrightarrow> (\<exists>kvs. obj = JObj kvs \<and> map_of kvs k = Some v)"
  by (cases obj) (auto split: option.splits)

lemma parse_elements_acc:
  "parse_elements es acc = acc @ parse_elements es []"
proof (induction es arbitrary: acc)
  case Nil
  then show ?case by simp
next
  case (Cons e es)
  show ?case
    using Cons.IH [of acc] Cons.IH [of "acc @ [b]" for b] Cons.IH [of "[b]" for b]
    by (simp split: sum.splits option.splits)
qed

lemma parse_elements_Cons:
  "parse_elements (e # es) [] =
     (case parse_element e of Inr (Some b) \<Rightarrow> [b] | _ \<Rightarrow> []) @ parse_elements es []"
  using parse_elements_acc [of es "[b]" for b]
  by (simp split: sum.splits option.splits)

lemma parse_elements_append:
  "parse_elements (xs @ ys) [] = parse_elements xs [] @ parse_elements ys []"
  by (induction xs) (simp_all add: parse_elements_Cons del: parse_elements.simps(2))

lemma parse_elements_all_kept:
  "\<forall>e\<in>set es. \<exists>b. parse_element e = Inr (Some b) \<Longrightarrow> length (parse_elements es []) = length es"
  by (induction es) (auto simp: parse_elements_Cons simp del: parse_elements.simps(2))

lemma address_parts_dict:
  "address_parts (JObj ts) =
     Inr (concat (map (\<lambda>k. case map_of ts k of Some v \<Rightarrow> [v] | None \<Rightarrow> [])
            [''addr:street'', ''addr:housenumber'', ''addr:postcode'', ''addr:city'']))"
  by (simp add: address_parts_def split: option.splits)

lemma py_join_two:
  "py_join sep (x # y # rest) = Inr r \<Longrightarrow>
   \<exists>s n more. x = JStr s \<and> y = JStr n \<and> r = s @ sep @ n @ more"
proof (cases x)
  case (JStr s)
  assume j: "py_join sep (x # y # rest) = Inr r"
  show ?thesis
  proof (cases y)
    case y: (JStr n)
    show ?thesis
    proof (cases rest)
      case Nil
      with j JStr y have "r = s @ sep @ n @ []" by auto
      with JStr y show ?thesis by blast
    next
      case (Cons z zs)
      with j JStr y show ?thesis by (auto simp: bindE_Inr)
    qed
  qed (use j JStr in \<open>auto simp: bindE_Inr\<close>)
qed auto


lemma filter_truthy_parts:
  "map_of ts ''addr:street'' = Some vs \<Longrightarrow> truthy vs \<Longrightarrow>
   map_of ts ''addr:housenumber'' = Some vn \<Longrightarrow> truthy vn \<Longrightarrow>
   \<exists>others. address_parts (JObj ts) = Inr (vs # vn # others)
             \<and> filter truthy (vs # vn # others) = vs # vn # filter truthy others"
  by (simp add: address_parts_dict)

lemma building_record_Inr:
  assumes "building_record (JObj kvs) (JObj ts) lat lng = Inr b"
    and "map_of ts ''addr:street'' = Some vs" "truthy vs"
    and "map_of ts ''addr:housenumber'' = Some vn" "truthy vn"
  shows "\<exists>s n more osm_id.
           vs = JStr s \<and> vn = JStr n \<and> map_of kvs ''id'' = Some osm_id
           \<and> b = [(''address'', JStr (s @ '', '' @ n @ more)),
                    (''lat'', lat), (''lng'', lng), (''osm_id'', osm_id),
                    (''building_type'',
                       case map_of ts ''building'' of Some v \<Rightarrow> v | None \<Rightarrow> JStr ''N/A''),
                    (''levels'',
                       case map_of ts ''building:levels'' of Some v \<Rightarrow> v | None \<Rightarrow> JStr ''N/A'')]"
proof -
  from filter_truthy_parts [OF assms(2-5)] obtain others where
    parts: "address_parts (JObj ts) = Inr (vs # vn # others)"
    and kept: "filter truthy (vs # vn # others) = vs # vn # filter truthy others"
    by blast
  from assms(1) obtain address osm_id where
    join: "py_join '', '' (vs # vn # filter truthy others) = Inr address"
    and ident: "map_of kvs ''id'' = Some osm_id"
    and b: "b = [(''address'', JStr address), (''lat'', lat), (''lng'', lng), (''osm_id'', osm_id),
                 (''building_type'',
                    case map_of ts ''building'' of Some v \<Rightarrow> v | None \<Rightarrow> JStr ''N/A''),
                 (''levels'',
                    case map_of ts ''building:levels'' of Some v \<Rightarrow> v | None \<Rightarrow> JStr ''N/A'')]"
    using assms(3,5)
    by (auto simp: building_record_def parts bindE_Inr split: option.splits)
  from py_join_two [OF join] obtain s n more where
    "vs = JStr s" "vn = JStr n" "address = s @ '', '' @ n @ more"
    by blast
  with ident b show ?thesis by blast
qed

lemma parse_element_kept:
  assumes "parse_element e = Inr (Some b)"
  shows "\<exists>kvs ts s n more lat lng osm_id.
           e = JObj kvs
           \<and> (case map_of kvs ''tags'' of Some t \<Rightarrow> t | None \<Rightarrow> JObj []) = JObj ts
           \<and> map_of ts ''addr:street'' = Some (JStr s) \<and> s \<noteq> []
           \<and> map_of ts ''addr:housenumber'' = Some (JStr n) \<and> n \<noteq> []
           \<and> coordinates e = Inr (Some (lat, lng))
           \<and> map_of kvs ''id'' = Some osm_id
           \<and> b = [(''address'', JStr (s @ '', '' @ n @ more)),
                    (''lat'', lat), (''lng'', lng), (''osm_id'', osm_id),
                    (''building_type'',
                       case map_of ts ''building'' of Some v \<Rightarrow> v | None \<Rightarrow> JStr ''N/A''),
                    (''levels'',
                       case map_of ts ''building:levels'' of Some v \<Rightarrow> v | None \<Rightarrow> JStr ''N/A'')]"
proof -
  from assms obtain tags hn street lat lng where
    tags: "py_get e ''tags'' (JObj []) = Inr tags"
    and hn: "py_get tags ''addr:housenumber'' JNull = Inr hn" "truthy hn"
    and street: "py_get tags ''addr:street'' JNull = Inr street" "truthy street"
    and co: "coordinates e = Inr (Some (lat, lng))"
    and rec: "building_record e tags lat lng = Inr b"
    by (auto simp: parse_element_def bindE_Inr split: if_splits option.splits)
  from tags obtain kvs where e: "e = JObj kvs"
    and tags_eq: "(case map_of kvs ''tags'' of Some t \<Rightarrow> t | None \<Rightarrow> JObj []) = tags"
    by (auto simp: py_get_Inr)
  from hn(1) obtain ts where ts: "tags = JObj ts"
    and hn_eq: "hn = (case map_of ts ''addr:housenumber'' of Some w \<Rightarrow> w | None \<Rightarrow> JNull)"
    by (auto simp: py_get_Inr)
  from hn(2) hn_eq have vn: "map_of ts ''addr:housenumber'' = Some hn"
    by (cases "map_of ts ''addr:housenumber''") auto
  from street ts have vs: "map_of ts ''addr:street'' = Some street"
    by (cases "map_of ts ''addr:street''") auto
  from building_record_Inr [OF rec [unfolded e ts] vs street(2) vn hn(2)]
  obtain s n more osm_id where
    r: "street = JStr s" "hn = JStr n" "map_of kvs ''id'' = Some osm_id"
       "b = [(''address'', JStr (s @ '', '' @ n @ more)),
             (''lat'', lat), (''lng'', lng), (''osm_id'', osm_id),
             (''building_type'',
                case map_of ts ''building'' of Some v \<Rightarrow> v | None \<Rightarrow> JStr ''N/A''),
             (''levels'',
                case map_of ts ''building:levels'' of Some v \<Rightarrow> v | None \<Rightarrow> JStr ''N/A'')]"
    by blast
  have "s \<noteq> []" "n \<noteq> []" using street(2) hn(2) r by auto
  with e tags_eq ts vs vn r co show ?thesis by blast
qed

lemma parse_elements_set:
  "set (parse_elements es []) = {b. \<exists>e\<in>set es. parse_element e = Inr (Some b)}"
  by (induction es)
     (auto simp: parse_elements_Cons simp del: parse_elements.simps(2)
           split: sum.splits option.splits)

lemma parse_elements_one_skipped:
  assumes "\<forall>e\<in>set xs \<union> set ys. \<exists>b. parse_element e = Inr (Some b)"
    and "\<forall>b. parse_element bad \<noteq> Inr (Some b)"
  shows "length (parse_elements (xs @ bad # ys) []) = length xs + length ys"
proof -
  have "parse_elements (xs @ bad # ys) []
          = parse_elements xs [] @ parse_elements [bad] [] @ parse_elements ys []"
    using parse_elements_append [of xs "bad # ys"] parse_elements_append [of "[bad]" ys] by simp
  moreover have "parse_elements [bad] [] = []"
    using assms(2) by (simp split: sum.splits option.splits)
  ultimately show ?thesis
    using parse_elements_all_kept [of xs] parse_elements_all_kept [of ys] assms(1) by simp
qed

lemma buildings_of_set:
  assumes "buildings_of data = Inr bs" and "b \<in> set bs"
  shows "\<exists>e. parse_element e = Inr (Some b)"
proof -
  from assms obtain es where "bs = parse_elements es []"
    by (auto simp: buildings_of_def bindE_Inr split: if_splits)
  with assms(2) parse_elements_set [of es] show ?thesis by auto
qed

lemma coordinates_node:
  assumes "coordinates (JObj kvs) = Inr (Some (lat, lng))"
    and "map_of kvs ''type'' = Some (JStr ''node'')"
  shows "map_of kvs ''lat'' = Some lat \<and> map_of kvs ''lon'' = Some lng"
  using assms by (auto simp: coordinates_def bindE_Inr split: option.splits)

lemma coordinates_other:
  assumes "coordinates (JObj kvs) = Inr (Some (lat, lng))"
    and "map_of kvs ''type'' \<noteq> Some (JStr ''node'')"
  shows "\<exists>c. map_of kvs ''center'' = Some (JObj c)
             \<and> map_of c ''lat'' = Some lat \<and> map_of c ''lon'' = Some lng"
  using assms
  by (auto simp: coordinates_def bindE_Inr py_index_Inr split: option.splits if_splits)

lemma parse_element_lacking_tag:
  assumes "(case map_of kvs ''tags'' of Some t \<Rightarrow> t | None \<Rightarrow> JObj []) = JObj ts"
    and "map_of ts ''addr:housenumber'' = None \<or> map_of ts ''addr:street'' = None"
  shows "parse_element (JObj kvs) = Inr None"
  using assms by (auto simp: parse_element_def split: option.splits)

lemma py_join_texts:
  "\<forall>x\<in>set xs. \<exists>s. x = JStr s \<Longrightarrow> \<exists>r. py_join sep xs = Inr r"
proof (induction sep xs rule: py_join.induct)
  case (3 sep s x xs)
  then obtain r where "py_join sep (x # xs) = Inr r" by auto
  then show ?case by simp
qed auto

lemma joinable_filter:
  "joinable v \<Longrightarrow>
   \<forall>x\<in>set (filter truthy (case v of Some w \<Rightarrow> [w] | None \<Rightarrow> [])). \<exists>s. x = JStr s"
  by (auto simp: joinable_def split: option.splits json.splits)

lemma coordinates_has:
  "has_coordinates kvs \<Longrightarrow> \<exists>lat lng. coordinates (JObj kvs) = Inr (Some (lat, lng))"
  by (auto simp: has_coordinates_def coordinates_def split: option.splits json.splits if_splits)

lemma well_formed_kept:
  assumes "well_formed e"
  shows "\<exists>b. parse_element e = Inr (Some b)"
proof -
  from assms obtain kvs where e: "e = JObj kvs"
    by (cases e) (auto simp: well_formed_def)
  from assms e obtain t where t: "map_of kvs ''tags'' = Some t"
    by (cases "map_of kvs ''tags''") (auto simp: well_formed_def)
  from assms e t obtain ts where ts: "t = JObj ts"
    by (cases t) (auto simp: well_formed_def)
  from t ts have tags: "map_of kvs ''tags'' = Some (JObj ts)" by simp
  from assms e tags have hn: "nonempty_text (map_of ts ''addr:housenumber'')"
    and st: "nonempty_text (map_of ts ''addr:street'')"
    and pc: "joinable (map_of ts ''addr:postcode'')"
    and ci: "joinable (map_of ts ''addr:city'')"
    and ident: "map_of kvs ''id'' \<noteq> None"
    and co: "has_coordinates kvs"
    by (simp_all add: well_formed_def)
  from hn obtain n where n: "map_of ts ''addr:housenumber'' = Some (JStr n)" "n \<noteq> []"
    by (auto simp: nonempty_text_def split: option.splits json.splits)
  from st obtain s where s: "map_of ts ''addr:street'' = Some (JStr s)" "s \<noteq> []"
    by (auto simp: nonempty_text_def split: option.splits json.splits)
  from coordinates_has [OF co] obtain lat lng where
    c: "coordinates (JObj kvs) = Inr (Some (lat, lng))" by blast
  from ident obtain i where i: "map_of kvs ''id'' = Some i" by auto
  let ?others = "filter truthy (case map_of ts ''addr:postcode'' of Some w \<Rightarrow> [w] | None \<Rightarrow> [])
                   @ filter truthy (case map_of ts ''addr:city'' of Some w \<Rightarrow> [w] | None \<Rightarrow> [])"
  have parts: "address_parts (JObj ts) = Inr (JStr s # JStr n #
      (case map_of ts ''addr:postcode'' of Some w \<Rightarrow> [w] | None \<Rightarrow> [])
      @ (case map_of ts ''addr:city'' of Some w \<Rightarrow> [w] | None \<Rightarrow> []))"
    using s n by (simp add: address_parts_dict)
  have "\<forall>x\<in>set (JStr s # JStr n # ?others). \<exists>t. x = JStr t"
    using joinable_filter [OF pc] joinable_filter [OF ci] by auto
  from py_join_texts [OF this, of "'', ''"] obtain address where
    j: "py_join '', '' (JStr s # JStr n # ?others) = Inr address" by blast
  have "building_record (JObj kvs) (JObj ts) lat lng
          = Inr [(''address'', JStr address), (''lat'', lat), (''lng'', lng), (''osm_id'', i),
                 (''building_type'',
                    case map_of ts ''building'' of Some v \<Rightarrow> v | None \<Rightarrow> JStr ''N/A''),
                 (''levels'',
                    case map_of ts ''building:levels'' of Some v \<Rightarrow> v | None \<Rightarrow> JStr ''N/A'')]"
    using parts j s n i by (simp add: building_record_def)
  then show ?thesis
    using e tags s n c by (simp add: parse_element_def)
qed

subsection \<open>The example response\<close>

lemma berlin_elements:
  "parse_element (JObj berlin_node) = Inr (Some muster_str_12)"
  "parse_element (JObj berlin_way) = Inr (Some ring_7)"
  "parse_element (JObj berlin_no_street) = Inr None"
  by (simp_all add: berlin_node_def berlin_way_def berlin_no_street_def berlin_no_street_tags_def
        muster_str_12_def ring_7_def
        parse_element_def coordinates_def building_record_def address_parts_def)

lemma berlin_scenario:
  "fst (get_residential_buildings berlin_server berlin_bbox ''4'' new_client)
     = Inr [muster_str_12, ring_7]"
  by (simp add: get_residential_buildings_def make_request_def overpass_query_def nwr_def
        upt_rec attempt_step_def try_body_def http_response_def new_client_def buildings_of_def
        berlin_server_def berlin_payload_def berlin_elements)

lemma add_house_accepts:
  assumes "lookup data ''address'' = Inr (JStr a)" and "a \<noteq> []"
    and "a \<notin> existing_addresses st"
    and "format_line h (now env) country city (replace_pipe a) data = Inr line"
    and "append_ok env"
  shows "add_house h env country city data st
           = (True, st\<lparr>houses_file := houses_file st @ line,
                       existing_addresses := insert a (existing_addresses st)\<rparr>)"
  using assms by (simp add: add_house_def add_house_body_def)

text \<open>
  Claim C6. The element loop parses element by element and goes on after every element it
  does not keep: the buildings of a batch are those of the elements before an element, then
  the building of that element if its block reaches the \<^verbatim>\<open>append\<close>, then those of the elements
  after it. An element whose tags lack the house number or the street is skipped. A kept
  element of type \<^verbatim>\<open>node\<close> carries its own \<^verbatim>\<open>lat\<close> and \<^verbatim>\<open>lon\<close>; a kept element of any other
  type has a \<^verbatim>\<open>center\<close> and carries the centre's \<^verbatim>\<open>lat\<close> and \<^verbatim>\<open>lon\<close>, so one without a centre
  is skipped. A batch of \<open>N\<close> well-formed elements and one that does not parse (it raises, or
  it is skipped) yields exactly \<open>N\<close> buildings. A payload whose \<^verbatim>\<open>elements\<close> is a list yields the
  buildings of that list. For the bounding box of Berlin, limit 4 and a response of three
  elements, two with house number and street and one without a street, the method returns
  exactly the two buildings.
\<close>

theorem skip_and_continue:
  "parse_elements (xs @ e # ys) []
     = parse_elements xs [] @ (case parse_element e of Inr (Some b) \<Rightarrow> [b] | _ \<Rightarrow> [])
         @ parse_elements ys []
   \<and> ((case map_of kvs ''tags'' of Some t \<Rightarrow> t | None \<Rightarrow> JObj []) = JObj ts
        \<and> (map_of ts ''addr:housenumber'' = None \<or> map_of ts ''addr:street'' = None)
      \<longrightarrow> parse_element (JObj kvs) = Inr None)
   \<and> (parse_element (JObj node) = Inr (Some nb) \<and> map_of node ''type'' = Some (JStr ''node'')
      \<longrightarrow> (\<exists>lat lng. map_of node ''lat'' = Some lat \<and> map_of node ''lon'' = Some lng
             \<and> map_of nb ''lat'' = Some lat \<and> map_of nb ''lng'' = Some lng))
   \<and> (parse_element (JObj area) = Inr (Some ab) \<and> map_of area ''type'' \<noteq> Some (JStr ''node'')
      \<longrightarrow> (\<exists>c lat lng. map_of area ''center'' = Some (JObj c)
             \<and> map_of c ''lat'' = Some lat \<and> map_of c ''lon'' = Some lng
             \<and> map_of ab ''lat'' = Some lat \<and> map_of ab ''lng'' = Some lng))
   \<and> ((\<forall>x\<in>set xs \<union> set ys. well_formed x)
        \<and> (\<forall>r. parse_element e \<noteq> Inr (Some r))
      \<longrightarrow> length (parse_elements (xs @ e # ys) []) = length xs + length ys)
   \<and> (map_of d ''elements'' = Some (JArr es)
      \<longrightarrow> buildings_of (JObj d) = Inr (parse_elements es []))
   \<and> fst (get_residential_buildings berlin_server berlin_bbox ''4'' new_client)
       = Inr [muster_str_12, ring_7]"
proof -
  have p1: "parse_elements (xs @ e # ys) []
     = parse_elements xs [] @ (case parse_element e of Inr (Some b) \<Rightarrow> [b] | _ \<Rightarrow> [])
         @ parse_elements ys []"
    by (simp add: parse_elements_append parse_elements_Cons del: parse_elements.simps(2))
  have p2: "(case map_of kvs ''tags'' of Some t \<Rightarrow> t | None \<Rightarrow> JObj []) = JObj ts
        \<and> (map_of ts ''addr:housenumber'' = None \<or> map_of ts ''addr:street'' = None)
      \<longrightarrow> parse_element (JObj kvs) = Inr None"
    using parse_element_lacking_tag [of kvs ts] by blast
  have kept: "\<exists>lat lng osm_id address bt lv. coordinates (JObj kvs) = Inr (Some (lat, lng))
          \<and> b = [(''address'', address), (''lat'', lat), (''lng'', lng), (''osm_id'', osm_id),
                  (''building_type'', bt), (''levels'', lv)]"
    if "parse_element (JObj kvs) = Inr (Some b)" for kvs b
    using parse_element_kept [OF that] by blast
  have p3: "parse_element (JObj node) = Inr (Some nb) \<and> map_of node ''type'' = Some (JStr ''node'')
      \<longrightarrow> (\<exists>lat lng. map_of node ''lat'' = Some lat \<and> map_of node ''lon'' = Some lng
             \<and> map_of nb ''lat'' = Some lat \<and> map_of nb ''lng'' = Some lng)"
  proof
    assume a: "parse_element (JObj node) = Inr (Some nb) \<and> map_of node ''type'' = Some (JStr ''node'')"
    from kept a obtain lat lng osm_id address bt lv where
      c: "coordinates (JObj node) = Inr (Some (lat, lng))"
      and b: "nb = [(''address'', address), (''lat'', lat), (''lng'', lng), (''osm_id'', osm_id),
                  (''building_type'', bt), (''levels'', lv)]"
      by blast
    from coordinates_node [OF c] a b
    show "\<exists>lat lng. map_of node ''lat'' = Some lat \<and> map_of node ''lon'' = Some lng
             \<and> map_of nb ''lat'' = Some lat \<and> map_of nb ''lng'' = Some lng"
      by simp
  qed
  have p4: "parse_element (JObj area) = Inr (Some ab) \<and> map_of area ''type'' \<noteq> Some (JStr ''node'')
      \<longrightarrow> (\<exists>c lat lng. map_of area ''center'' = Some (JObj c)
             \<and> map_of c ''lat'' = Some lat \<and> map_of c ''lon'' = Some lng
             \<and> map_of ab ''lat'' = Some lat \<and> map_of ab ''lng'' = Some lng)"
  proof
    assume a: "parse_element (JObj area) = Inr (Some ab) \<and> map_of area ''type'' \<noteq> Some (JStr ''node'')"
    from kept a obtain lat lng osm_id address bt lv where
      c: "coordinates (JObj area) = Inr (Some (lat, lng))"
      and b: "ab = [(''address'', address), (''lat'', lat), (''lng'', lng), (''osm_id'', osm_id),
                  (''building_type'', bt), (''levels'', lv)]"
      by blast
    from a have "map_of area ''type'' \<noteq> Some (JStr ''node'')" by simp
    from coordinates_other [OF c this] obtain ce where
      "map_of area ''center'' = Some (JObj ce)" "map_of ce ''lat'' = Some lat"
      "map_of ce ''lon'' = Some lng"
      by blast
    with b show "\<exists>c lat lng. map_of area ''center'' = Some (JObj c)
             \<and> map_of c ''lat'' = Some lat \<and> map_of c ''lon'' = Some lng
             \<and> map_of ab ''lat'' = Some lat \<and> map_of ab ''lng'' = Some lng"
      by simp
  qed
  have p5: "(\<forall>x\<in>set xs \<union> set ys. well_formed x)
        \<and> (\<forall>r. parse_element e \<noteq> Inr (Some r))
      \<longrightarrow> length (parse_elements (xs @ e # ys) []) = length xs + length ys"
    using parse_elements_one_skipped [of xs ys e] well_formed_kept by blast
  have p6: "map_of d ''elements'' = Some (JArr es)
      \<longrightarrow> buildings_of (JObj d) = Inr (parse_elements es [])"
    by (auto simp: buildings_of_def)
  have p7: "fst (get_residential_buildings berlin_server berlin_bbox ''4'' new_client)
       = Inr [muster_str_12, ring_7]"
    by (rule berlin_scenario)
  from p1 p2 p3 p4 p5 p6 p7 show ?thesis by blast
qed

theorem skip_and_continue_witness:
  "length (parse_elements [JObj berlin_node, JObj berlin_no_street, JObj berlin_way] []) = 2
   \<and> parse_element (JObj berlin_no_street) = Inr None
   \<and> (\<exists>lat lng. map_of berlin_node ''lat'' = Some lat \<and> map_of berlin_node ''lon'' = Some lng
          \<and> map_of muster_str_12 ''lat'' = Some lat \<and> map_of muster_str_12 ''lng'' = Some lng)
   \<and> (\<exists>c lat lng. map_of berlin_way ''center'' = Some (JObj c)
          \<and> map_of c ''lat'' = Some lat \<and> map_of c ''lon'' = Some lng
          \<and> map_of ring_7 ''lat'' = Some lat \<and> map_of ring_7 ''lng'' = Some lng)
   \<and> buildings_of (JObj berlin_payload)
       = Inr (parse_elements [JObj berlin_node, JObj berlin_no_street, JObj berlin_way] [])"
proof -
  have h2: "(case map_of berlin_no_street ''tags'' of Some t \<Rightarrow> t | None \<Rightarrow> JObj [])
              = JObj berlin_no_street_tags
            \<and> (map_of berlin_no_street_tags ''addr:housenumber'' = None
                \<or> map_of berlin_no_street_tags ''addr:street'' = None)"
    by (simp add: berlin_no_street_def berlin_no_street_tags_def)
  have h3: "parse_element (JObj berlin_node) = Inr (Some muster_str_12)
            \<and> map_of berlin_node ''type'' = Some (JStr ''node'')"
    by (simp add: berlin_elements) (simp add: berlin_node_def)
  have h4: "parse_element (JObj berlin_way) = Inr (Some ring_7)
            \<and> map_of berlin_way ''type'' \<noteq> Some (JStr ''node'')"
    by (simp add: berlin_elements) (simp add: berlin_way_def)
  have "well_formed (JObj berlin_node)" "well_formed (JObj berlin_way)"
    by (simp_all add: well_formed_def nonempty_text_def joinable_def has_coordinates_def
          berlin_node_def berlin_way_def)
  then have h5: "(\<forall>x\<in>set [JObj berlin_node] \<union> set [JObj berlin_way]. well_formed x)
            \<and> (\<forall>r. parse_element (JObj berlin_no_street) \<noteq> Inr (Some r))"
    by (simp add: berlin_elements)
  have h6: "map_of berlin_payload ''elements''
              = Some (JArr [JObj berlin_node, JObj berlin_no_street, JObj berlin_way])"
    by (simp add: berlin_payload_def)
  from skip_and_continue [of "[JObj berlin_node]" "JObj berlin_no_street" "[JObj berlin_way]"
         berlin_no_street berlin_no_street_tags berlin_node muster_str_12 berlin_way ring_7
         berlin_payload "[JObj berlin_node, JObj berlin_no_street, JObj berlin_way]"]
       h2 h3 h4 h5 h6
  show ?thesis by simp
qed

text \<open>
  Claim C10. Every building that \<^verbatim>\<open>get_residential_buildings\<close> returns has an address that is a
  string and is not empty: it begins with the street and the house number of the element,
  both not empty, joined by \<^verbatim>\<open>", "\<close>. So the test \<^verbatim>\<open>not address\<close> of \<^verbatim>\<open>add_house\<close> is false for
  it: when \<^verbatim>\<open>add_house\<close> returns \<^verbatim>\<open>False\<close> for such a building, the address was already in
  \<^verbatim>\<open>existing_addresses\<close>, or the line could not be formatted or appended.
\<close>

theorem client_addresses_nonempty:
  assumes "fst (get_residential_buildings srv bbox limit st) = Inr bs" and "b \<in> set bs"
  shows "\<exists>a street housenumber more.
           a = street @ '', '' @ housenumber @ more \<and> street \<noteq> [] \<and> housenumber \<noteq> []
           \<and> lookup b ''address'' = Inr (JStr a) \<and> truthy (JStr a)
           \<and> (fst (add_house h env country city b store) = False
                \<longrightarrow> a \<in> existing_addresses store
                    \<or> (\<exists>e. format_line h (now env) country city (replace_pipe a) b = Inl e)
                    \<or> \<not> append_ok env)"
proof -
  from assms have "buildings_of (fst (make_request srv (Some (overpass_query bbox limit)) 2 st))
                     = Inr bs"
    by (simp add: get_residential_buildings_proj)
  from buildings_of_set [OF this assms(2)] obtain e where "parse_element e = Inr (Some b)"
    by blast
  from parse_element_kept [OF this] obtain s n more lat lng osm_id bt lv where
    s: "s \<noteq> []" and n: "n \<noteq> []"
    and b: "b = [(''address'', JStr (s @ '', '' @ n @ more)),
                 (''lat'', lat), (''lng'', lng), (''osm_id'', osm_id),
                 (''building_type'', bt), (''levels'', lv)]"
    by blast
  define a where "a = s @ '', '' @ n @ more"
  have ne: "a \<noteq> []" using s by (simp add: a_def)
  have look: "lookup b ''address'' = Inr (JStr a)" using b by (simp add: lookup_def a_def)
  have rej: "fst (add_house h env country city b store) = False
          \<longrightarrow> a \<in> existing_addresses store
              \<or> (\<exists>e. format_line h (now env) country city (replace_pipe a) b = Inl e)
              \<or> \<not> append_ok env"
  proof (cases "format_line h (now env) country city (replace_pipe a) b")
    case (Inl e)
    then show ?thesis by blast
  next
    case (Inr line)
    show ?thesis
      using add_house_accepts [OF look ne _ Inr, of store] by auto
  qed
  have "a = s @ '', '' @ n @ more \<and> s \<noteq> [] \<and> n \<noteq> []
           \<and> lookup b ''address'' = Inr (JStr a) \<and> truthy (JStr a)
           \<and> (fst (add_house h env country city b store) = False
                \<longrightarrow> a \<in> existing_addresses store
                    \<or> (\<exists>e. format_line h (now env) country city (replace_pipe a) b = Inl e)
                    \<or> \<not> append_ok env)"
    using a_def s n look ne rej by simp
  then show ?thesis by blast
qed

theorem client_addresses_nonempty_witness:
  "\<exists>a street housenumber more.
     a = street @ '', '' @ housenumber @ more \<and> street \<noteq> [] \<and> housenumber \<noteq> []
     \<and> lookup ring_7 ''address'' = Inr (JStr a) \<and> truthy (JStr a)"
proof -
  have "ring_7 \<in> set [muster_str_12, ring_7]" by simp
  from client_addresses_nonempty [OF berlin_scenario this,
         of "\<lparr>fmt6f = \<lambda>x. ''0.000000'', str_of = \<lambda>x. Inr ''0''\<rparr>"
            "\<lparr>now = ''2024-01-01 12:00:00'', append_ok = True\<rparr>" "''Germany''" "''Berlin''"
            init_store]
  show ?thesis
    by (elim exE conjE) (intro exI conjI, assumption+)
qed

section \<open>Properties of the store\<close>

subsection \<open>One call\<close>

lemma add_house_cases:
  "add_house h env country city data st =
     (case accept_line h env country city data of
        Some (a, line) \<Rightarrow>
          if a \<in> existing_addresses st then (False, st)
          else (True, st\<lparr>houses_file := houses_file st @ line,
                         existing_addresses := insert a (existing_addresses st)\<rparr>)
      | None \<Rightarrow> (False, st))"
proof (cases "lookup data ''address''")
  case (Inl e)
  then show ?thesis by (simp add: add_house_def add_house_body_def accept_line_def)
next
  case (Inr v)
  then show ?thesis
    by (cases v; cases "reject_message v")
       (auto simp: add_house_def add_house_body_def accept_line_def split: sum.splits)
qed

lemma accept_line_address:
  "accept_line h env country city data = Some (a, line) \<Longrightarrow>
   lookup data ''address'' = Inr (JStr a) \<and> a \<noteq> []
   \<and> format_line h (now env) country city (replace_pipe a) data = Inr line \<and> append_ok env"
  by (auto simp: accept_line_def split: sum.splits json.splits if_splits)

lemma add_house_rejects:
  "fst (add_house h env country city data st) = False \<Longrightarrow>
   snd (add_house h env country city data st) = st"
  by (auto simp: add_house_cases split: option.splits if_splits)

lemma add_house_True:
  assumes "fst (add_house h env country city data st) = True"
  shows "\<exists>a line. accept_line h env country city data = Some (a, line)
           \<and> a \<notin> existing_addresses st
           \<and> snd (add_house h env country city data st)
               = st\<lparr>houses_file := houses_file st @ line,
                    existing_addresses := insert a (existing_addresses st)\<rparr>"
  using assms by (auto simp: add_house_cases split: option.splits if_splits)

lemma add_house_empty_or_seen:
  assumes "lookup data ''address'' = Inr v"
    and "\<not> truthy v \<or> (\<exists>a. v = JStr a \<and> a \<in> existing_addresses st)"
  shows "add_house h env country city data st = (False, st)"
proof -
  have "accept_line h env country city data = None
        \<or> (\<exists>a line. accept_line h env country city data = Some (a, line)
                     \<and> a \<in> existing_addresses st)"
  proof (cases "accept_line h env country city data")
    case None
    then show ?thesis by simp
  next
    case (Some al)
    obtain a line where al: "al = (a, line)" by (cases al)
    from accept_line_address [OF Some [unfolded al]] assms show ?thesis
      using Some al by auto
  qed
  then show ?thesis by (auto simp: add_house_cases)
qed

subsection \<open>Sequences of calls\<close>

lemma add_call_cases:
  "add_call h c st =
     (case accept_call h c of
        Some (a, line) \<Rightarrow>
          if a \<in> existing_addresses st then (False, st)
          else (True, st\<lparr>houses_file := houses_file st @ line,
                         existing_addresses := insert a (existing_addresses st)\<rparr>)
      | None \<Rightarrow> (False, st))"
  by (simp add: add_call_def accept_call_def add_house_cases)

lemma accept_call_address:
  "accept_call h c = Some (a, line) \<Longrightarrow> lookup (call_data c) ''address'' = Inr (JStr a)"
  by (simp add: accept_call_def accept_line_address)

lemma add_houses_length: "add_houses h cs st0 = (rs, st) \<Longrightarrow> length rs = length cs"
  by (induction cs arbitrary: st0 rs st) (auto split: prod.splits)

lemma accepted_with_Cons:
  "accepted_with a (c # cs) (r # rs) =
     (if r \<and> lookup (call_data c) ''address'' = Inr (JStr a) then [(c, r)] else [])
       @ accepted_with a cs rs"
  by (simp add: accepted_with_def)

lemma add_houses_dedup:
  assumes "add_houses h cs st0 = (rs, st)"
  shows "length (accepted_with a cs rs)
           = (if a \<notin> existing_addresses st0 \<and> (\<exists>c\<in>set cs. \<exists>line. accept_call h c = Some (a, line))
              then 1 else 0)
         \<and> existing_addresses st
             = existing_addresses st0 \<union> {x. \<exists>c\<in>set cs. \<exists>line. accept_call h c = Some (x, line)}"
  using assms
proof (induction cs arbitrary: st0 rs st)
  case Nil
  then show ?case by (simp add: accepted_with_def)
next
  case (Cons c cs)
  obtain r st1 where step: "add_call h c st0 = (r, st1)" by (cases "add_call h c st0")
  obtain rs' where rest: "add_houses h cs st1 = (rs', st)" and rs: "rs = r # rs'"
    using Cons.prems step by (auto split: prod.splits)
  note IH = Cons.IH [OF rest]
  show ?case
  proof (cases "accept_call h c")
    case None
    with step have "r = False" "st1 = st0" by (auto simp: add_call_cases)
    with IH None rs show ?thesis by (auto simp: accepted_with_Cons)
  next
    case (Some al)
    obtain a' line where al: "al = (a', line)" by (cases al)
    note addr = accept_call_address [OF Some [unfolded al]]
    show ?thesis
    proof (cases "a' \<in> existing_addresses st0")
      case True
      with step Some al have "r = False" "st1 = st0" by (auto simp: add_call_cases)
      with IH Some al rs True show ?thesis by (auto simp: accepted_with_Cons)
    next
      case False
      with step Some al have r: "r = True"
        and st1: "existing_addresses st1 = insert a' (existing_addresses st0)"
        by (auto simp: add_call_cases)
      show ?thesis
      proof (cases "a = a'")
        case True
        with IH Some al rs r st1 False addr show ?thesis
          by (auto simp: accepted_with_Cons)
      next
        case ne: False
        with IH Some al rs r st1 False addr show ?thesis
          by (auto simp: accepted_with_Cons)
      qed
    qed
  qed
qed

subsection \<open>Lines of the log\<close>

lemma CR_neq_LF [simp]: "CR \<noteq> LF" "LF \<noteq> CR"
  by (simp_all add: CR_def LF_def)

lemma readlines_from_unbroken:
  "LF \<notin> set body \<Longrightarrow> CR \<notin> set body \<Longrightarrow>
   readlines_from cur (body @ [LF]) = [cur @ body @ [LF]]"
  by (induction body arbitrary: cur) auto

lemma readlines_from_append:
  "t \<noteq> [] \<Longrightarrow> last t = LF \<Longrightarrow>
   readlines_from cur (t @ rest) = readlines_from cur t @ readlines_from [] rest"
proof (induction cur t rule: readlines_from.induct)
  case (1 cur)
  then show ?case by simp
next
  case (2 cur c cs)
  show ?case
  proof (cases "c = LF")
    case True
    show ?thesis
    proof (cases "cs = []")
      case True
      with \<open>c = LF\<close> show ?thesis by simp
    next
      case False
      with "2.prems" have "last cs = LF" by simp
      with "2.IH"(1) [OF True False] True show ?thesis by simp
    qed
  next
    case nl: False
    from "2.prems" nl have ne: "cs \<noteq> []" by (cases cs) auto
    then have lcs: "last cs = LF" using "2.prems" by simp
    show ?thesis
    proof (cases "c = CR")
      case True
      obtain d ds where cs: "cs = d # ds" using ne by (cases cs) auto
      show ?thesis
      proof (cases "d = LF")
        case dl: True
        show ?thesis
        proof (cases "ds = []")
          case True
          with cs dl \<open>c = CR\<close> nl show ?thesis by simp
        next
          case False
          with lcs cs have "last ds = LF" by simp
          with "2.IH"(2) [OF nl True] cs dl False True nl show ?thesis by simp
        qed
      next
        case False
        with "2.IH"(2) [OF nl True] cs lcs True nl show ?thesis by simp
      qed
    next
      case False
      with "2.IH"(3) [OF nl False ne lcs] nl show ?thesis by simp
    qed
  qed
qed

lemma readlines_append_line:
  assumes "t \<noteq> []" "last t = LF" "unbroken line"
  shows "readlines (t @ line) = readlines t @ [line]"
proof -
  from assms(3) have "line = butlast line @ [LF]"
    and "LF \<notin> set (butlast line)" and "CR \<notin> set (butlast line)"
    by (auto simp: unbroken_def dest: append_butlast_last_id)
  with readlines_from_unbroken [of "butlast line" "[]"]
  have "readlines_from [] line = [line]" by simp
  with readlines_from_append [OF assms(1,2), of "[]" line] show ?thesis
    by (simp add: readlines_def)
qed

lemma readlines_header: "length (readlines header) = 2"
proof -
  let ?l1 = "''Date | Country | City | Address | Latitude | Longitude | OSM_ID | Building_Type | Levels''"
  let ?l2 = "replicate 100 (CHR ''='')"
  have u1: "unbroken (?l1 @ [LF])" by (simp add: unbroken_def LF_def CR_def)
  have u2: "unbroken (?l2 @ [LF])" by (auto simp: unbroken_def LF_def CR_def)
  have "readlines (?l1 @ [LF]) = [?l1 @ [LF]]"
    using readlines_from_unbroken [of ?l1 "[]"] by (simp add: readlines_def LF_def CR_def)
  moreover have "readlines ((?l1 @ [LF]) @ (?l2 @ [LF])) = readlines (?l1 @ [LF]) @ [?l2 @ [LF]]"
    by (rule readlines_append_line [OF _ _ u2]) simp_all
  ultimately show ?thesis by (simp add: header_def)
qed

lemma header_ends: "header \<noteq> [] \<and> last header = LF"
  by (simp add: header_def)

lemma add_houses_lines:
  assumes "add_houses h cs st0 = (rs, st)"
    and "houses_file st0 \<noteq> []" "last (houses_file st0) = LF"
    and "\<forall>cr\<in>set (zip cs rs). snd cr \<longrightarrow>
           (\<forall>a line. accept_call h (fst cr) = Some (a, line) \<longrightarrow> unbroken line)"
  shows "length (readlines (houses_file st))
           = length (readlines (houses_file st0)) + length (filter (\<lambda>r. r) rs)
         \<and> houses_file st \<noteq> [] \<and> last (houses_file st) = LF"
  using assms
proof (induction cs arbitrary: st0 rs st)
  case Nil
  then show ?case by simp
next
  case (Cons c cs)
  obtain r st1 where step: "add_call h c st0 = (r, st1)" by (cases "add_call h c st0")
  obtain rs' where rest: "add_houses h cs st1 = (rs', st)" and rs: "rs = r # rs'"
    using Cons.prems(1) step by (auto split: prod.splits)
  have later: "\<forall>cr\<in>set (zip cs rs'). snd cr \<longrightarrow>
           (\<forall>a line. accept_call h (fst cr) = Some (a, line) \<longrightarrow> unbroken line)"
    using Cons.prems(4) rs by simp
  show ?case
  proof (cases r)
    case False
    with step have "st1 = st0" by (auto simp: add_call_cases split: option.splits if_splits)
    with Cons.IH [OF rest _ _ later] Cons.prems(2,3) rs False show ?thesis by simp
  next
    case True
    with step obtain a line where acc: "accept_call h c = Some (a, line)"
      and st1: "houses_file st1 = houses_file st0 @ line"
      by (auto simp: add_call_cases split: option.splits if_splits)
    from Cons.prems(4) rs True acc have u: "unbroken line" by simp
    then have e: "houses_file st1 \<noteq> []" "last (houses_file st1) = LF"
      using st1 by (auto simp: unbroken_def)
    from readlines_append_line [OF Cons.prems(2,3) u] st1
    have "length (readlines (houses_file st1)) = length (readlines (houses_file st0)) + 1"
      by simp
    with Cons.IH [OF rest e later] rs True show ?thesis by simp
  qed
qed

subsection \<open>Fields of a line\<close>

lemma split_from_field:
  "pipe_free f \<Longrightarrow>
   split_from '' | '' cur (f @ '' | '' @ rest) = (cur @ f) # split_from '' | '' [] rest"
proof (induction f arbitrary: cur)
  case Nil
  then show ?case by simp
next
  case (Cons c f)
  then have c: "c \<noteq> CHR ''|''" and f: "pipe_free f" by (auto simp: pipe_free_def)
  have "take (length '' | '') (c # f @ '' | '' @ rest) \<noteq> '' | ''"
  proof (cases f)
    case Nil
    then show ?thesis by simp
  next
    case (Cons d f')
    with f have "d \<noteq> CHR ''|''" by (auto simp: pipe_free_def)
    with Cons show ?thesis by simp
  qed
  with Cons.IH [OF f, of "cur @ [c]"] show ?case by simp
qed

lemma split_from_last:
  "pipe_free f \<Longrightarrow> split_from '' | '' cur f = [cur @ f]"
proof (induction f arbitrary: cur)
  case Nil
  then show ?case by simp
next
  case (Cons c f)
  then have c: "c \<noteq> CHR ''|''" and f: "pipe_free f" by (auto simp: pipe_free_def)
  have "take (length '' | '') (c # f) \<noteq> '' | ''"
  proof (cases f)
    case Nil
    then show ?thesis by simp
  next
    case (Cons d f')
    with f have "d \<noteq> CHR ''|''" by (auto simp: pipe_free_def)
    with Cons show ?thesis by simp
  qed
  with Cons.IH [OF f, of "cur @ [c]"] show ?case by simp
qed

lemma split_nine:
  assumes "pipe_free f1" "pipe_free f2" "pipe_free f3" "pipe_free f4" "pipe_free f5"
    "pipe_free f6" "pipe_free f7" "pipe_free f8" "pipe_free f9"
  shows "py_split '' | '' (f1 @ '' | '' @ f2 @ '' | '' @ f3 @ '' | '' @ f4 @ '' | '' @ f5
            @ '' | '' @ f6 @ '' | '' @ f7 @ '' | '' @ f8 @ '' | '' @ f9)
         = [f1, f2, f3, f4, f5, f6, f7, f8, f9]"
  unfolding py_split_def
  by (simp only: split_from_field [OF assms(1)] split_from_field [OF assms(2)]
        split_from_field [OF assms(3)] split_from_field [OF assms(4)]
        split_from_field [OF assms(5)] split_from_field [OF assms(6)]
        split_from_field [OF assms(7)] split_from_field [OF assms(8)]
        split_from_last [OF assms(9)] append_Nil)

lemma pipe_free_replace_pipe: "pipe_free (replace_pipe a)"
  by (auto simp: pipe_free_def replace_pipe_def)

lemma replace_pipe_nth:
  "length (replace_pipe a) = length a
   \<and> (\<forall>i<length a. replace_pipe a ! i = (if a ! i = CHR ''|'' then CHR '','' else a ! i))"
  by (simp add: replace_pipe_def)

lemma format_line_Inr:
  assumes "format_line h ts country city clean data = Inr line"
  shows "\<exists>lat lng osm_id bt lv osm_id_text bt_text lv_text.
           lookup data ''lat'' = Inr lat \<and> lookup data ''lng'' = Inr lng
           \<and> lookup data ''osm_id'' = Inr osm_id \<and> lookup data ''building_type'' = Inr bt
           \<and> lookup data ''levels'' = Inr lv
           \<and> format_6f h lat = Inr (fmt6f h lat) \<and> format_6f h lng = Inr (fmt6f h lng)
           \<and> format_plain h osm_id = Inr osm_id_text \<and> format_plain h bt = Inr bt_text
           \<and> format_plain h lv = Inr lv_text
           \<and> line = ts @ '' | '' @ country @ '' | '' @ city @ '' | '' @ clean @ '' | ''
                @ fmt6f h lat @ '' | '' @ fmt6f h lng @ '' | '' @ osm_id_text @ '' | ''
                @ bt_text @ '' | '' @ lv_text @ [LF]"
proof -
  have six: "format_6f h v = Inr t \<Longrightarrow> t = fmt6f h v" for v t
    by (cases v) (auto split: if_splits)
  from assms obtain lat lat_text lng lng_text osm_id osm_id_text bt bt_text lv lv_text where
    "lookup data ''lat'' = Inr lat" "format_6f h lat = Inr lat_text"
    "lookup data ''lng'' = Inr lng" "format_6f h lng = Inr lng_text"
    "lookup data ''osm_id'' = Inr osm_id" "format_plain h osm_id = Inr osm_id_text"
    "lookup data ''building_type'' = Inr bt" "format_plain h bt = Inr bt_text"
    "lookup data ''levels'' = Inr lv" "format_plain h lv = Inr lv_text"
    "line = ts @ '' | '' @ country @ '' | '' @ city @ '' | '' @ clean @ '' | ''
            @ lat_text @ '' | '' @ lng_text @ '' | '' @ osm_id_text @ '' | ''
            @ bt_text @ '' | '' @ lv_text @ [LF]"
    by (auto simp: format_line_def bindE_Inr)
  with six [of lat lat_text] six [of lng lng_text] show ?thesis by auto
qed

text \<open>
  A coordinate beyond the range of a float: the record is not stored, whatever the host.
\<close>

lemma add_house_overflow:
  assumes "lookup data ''address'' = Inr (JStr a)" and "lookup data ''lat'' = Inr (JInt n)"
    and "float_overflow n"
  shows "add_house h env country city data st = (False, st)"
proof -
  have "format_line h (now env) country city (replace_pipe a) data = Inl OverflowError"
    using assms(2,3) by (simp add: format_line_def)
  then have "accept_line h env country city data = None"
    using assms(1) by (simp add: accept_line_def)
  then show ?thesis by (simp add: add_house_cases)
qed

lemma float_overflow_examples:
  "float_overflow (2 ^ 1024)" "\<not> float_overflow (2 ^ 1023)" "\<not> float_overflow 123456789"
  by (simp_all add: float_overflow_def)

lemma format_6f_ok: "(\<exists>t. format_6f h v = Inr t) \<longleftrightarrow> has_6f v"
  by (cases v) (auto simp: has_6f_def)

lemma format_line_ok:
  "(\<exists>line. format_line h ts country city clean data = Inr line) \<longleftrightarrow>
     (\<exists>lat lng osm_id bt lv.
        lookup data ''lat'' = Inr lat \<and> has_6f lat
        \<and> lookup data ''lng'' = Inr lng \<and> has_6f lng
        \<and> lookup data ''osm_id'' = Inr osm_id \<and> (\<exists>t. format_plain h osm_id = Inr t)
        \<and> lookup data ''building_type'' = Inr bt \<and> (\<exists>t. format_plain h bt = Inr t)
        \<and> lookup data ''levels'' = Inr lv \<and> (\<exists>t. format_plain h lv = Inr t))"
proof
  assume "\<exists>line. format_line h ts country city clean data = Inr line"
  then obtain line where "format_line h ts country city clean data = Inr line" by blast
  from format_line_Inr [OF this] obtain lat lng osm_id bt lv osm_id_text bt_text lv_text where
    f: "lookup data ''lat'' = Inr lat" "lookup data ''lng'' = Inr lng"
      "lookup data ''osm_id'' = Inr osm_id" "lookup data ''building_type'' = Inr bt"
      "lookup data ''levels'' = Inr lv"
      "format_6f h lat = Inr (fmt6f h lat)" "format_6f h lng = Inr (fmt6f h lng)"
      "format_plain h osm_id = Inr osm_id_text" "format_plain h bt = Inr bt_text"
      "format_plain h lv = Inr lv_text"
    by (elim exE conjE) (rule that)
  have "has_6f lat" "has_6f lng"
    using f(6,7) format_6f_ok [of h lat] format_6f_ok [of h lng] by blast+
  with f show "\<exists>lat lng osm_id bt lv.
        lookup data ''lat'' = Inr lat \<and> has_6f lat
        \<and> lookup data ''lng'' = Inr lng \<and> has_6f lng
        \<and> lookup data ''osm_id'' = Inr osm_id \<and> (\<exists>t. format_plain h osm_id = Inr t)
        \<and> lookup data ''building_type'' = Inr bt \<and> (\<exists>t. format_plain h bt = Inr t)
        \<and> lookup data ''levels'' = Inr lv \<and> (\<exists>t. format_plain h lv = Inr t)"
    by blast
next
  assume "\<exists>lat lng osm_id bt lv.
        lookup data ''lat'' = Inr lat \<and> has_6f lat
        \<and> lookup data ''lng'' = Inr lng \<and> has_6f lng
        \<and> lookup data ''osm_id'' = Inr osm_id \<and> (\<exists>t. format_plain h osm_id = Inr t)
        \<and> lookup data ''building_type'' = Inr bt \<and> (\<exists>t. format_plain h bt = Inr t)
        \<and> lookup data ''levels'' = Inr lv \<and> (\<exists>t. format_plain h lv = Inr t)"
  then obtain lat lng osm_id bt lv t1 t2 t3 where
    f: "lookup data ''lat'' = Inr lat" "has_6f lat" "lookup data ''lng'' = Inr lng" "has_6f lng"
      "lookup data ''osm_id'' = Inr osm_id" "format_plain h osm_id = Inr t1"
      "lookup data ''building_type'' = Inr bt" "format_plain h bt = Inr t2"
      "lookup data ''levels'' = Inr lv" "format_plain h lv = Inr t3"
    by (elim exE conjE) (rule that)
  from f(2,4) obtain u1 u2 where "format_6f h lat = Inr u1" "format_6f h lng = Inr u2"
    using format_6f_ok [of h lat] format_6f_ok [of h lng] by blast
  with f show "\<exists>line. format_line h ts country city clean data = Inr line"
    by (simp add: format_line_def)
qed

subsection \<open>The example calls\<close>

lemma accept_main_st:
  "accept_call example_host (call_at noon ''Main St, 1'' ''3'') = Some (''Main St, 1'', main_st_line)"
  by (simp add: accept_call_def accept_line_def call_at_def record_at_def lookup_def noon_def
        format_line_def example_host_def replace_pipe_def main_st_line_def)

lemma unbroken_main_st: "unbroken main_st_line"
  by (simp add: unbroken_def main_st_line_def LF_def CR_def)

lemma main_st_twice:
  "add_houses example_host [call_at noon ''Main St, 1'' ''3'', call_at noon ''Main St, 1'' ''3'']
     init_store
   = ([True, False],
      \<lparr>houses_file = header @ main_st_line, existing_addresses = {''Main St, 1''}\<rparr>)"
  by (simp add: add_call_cases accept_main_st init_store_def)

lemma accept_broken:
  "accept_call example_host (call_at noon broken_address ''3'') = Some (broken_address, broken_line)"
  by (simp add: accept_call_def accept_line_def call_at_def record_at_def lookup_def noon_def
        format_line_def example_host_def replace_pipe_def LF_def broken_address_def broken_line_def)

lemma broken_once:
  "add_houses example_host [call_at noon broken_address ''3''] init_store
     = ([True], \<lparr>houses_file = header @ broken_line, existing_addresses = {broken_address}\<rparr>)"
  by (simp add: add_call_cases accept_broken init_store_def)

lemma readlines_broken: "length (readlines (header @ broken_line)) = 4"
proof -
  have "readlines (header @ broken_line) = readlines header @ readlines broken_line"
    using readlines_from_append [of header "[]" broken_line] header_ends
    by (simp add: readlines_def)
  moreover have "length (readlines broken_line) = 2"
    by (simp add: readlines_def broken_line_def LF_def CR_def)
  ultimately show ?thesis by (simp add: readlines_header)
qed

subsection \<open>The claims about the store\<close>

text \<open>
  Claim C2, as the code has it. In a sequence of \<^verbatim>\<open>add_house\<close> calls on a fresh store, the
  number of calls that return \<^verbatim>\<open>True\<close> with a given address is one if some call of the
  sequence offers the address as a non-empty string with a record whose line formats and
  whose append succeeds, and zero otherwise: an address is accepted at most once, and
  exactly once unless every call that offers it fails for a reason of its own (the append
  raises, or line 261 raises). A call whose address is falsy (empty) or
  already in \<^verbatim>\<open>existing_addresses\<close> returns \<^verbatim>\<open>False\<close> and leaves the file and the set as they
  were; no exception leaves \<^verbatim>\<open>add_house\<close>. A call that returns \<^verbatim>\<open>True\<close> had a non-empty
  address not yet in the set, appended exactly the one line of its record and added the
  address. The line of a record formats exactly when the record has the five keys read by
  line 261, its \<^verbatim>\<open>lat\<close> and \<^verbatim>\<open>lng\<close> are floats, booleans or integers within the range of a
  float, and \<^verbatim>\<open>osm_id\<close>, \<^verbatim>\<open>building_type\<close> and \<^verbatim>\<open>levels\<close> are strings or values of which
  \<^verbatim>\<open>str\<close> gives a text.
\<close>

theorem dedup_by_address:
  assumes "add_houses h cs init_store = (rs, st)"
  shows "length (accepted_with a cs rs)
           = (if \<exists>c\<in>set cs. \<exists>line. accept_call h c = Some (a, line) then 1 else 0)
         \<and> (lookup data ''address'' = Inr v
              \<and> (\<not> truthy v \<or> (\<exists>x. v = JStr x \<and> x \<in> existing_addresses s))
            \<longrightarrow> add_house h env country city data s = (False, s))
         \<and> (fst (add_house h env' country' city' data' s') = True
            \<longrightarrow> (\<exists>x line. lookup data' ''address'' = Inr (JStr x) \<and> x \<noteq> []
                   \<and> x \<notin> existing_addresses s'
                   \<and> format_line h (now env') country' city' (replace_pipe x) data' = Inr line
                   \<and> snd (add_house h env' country' city' data' s')
                       = s'\<lparr>houses_file := houses_file s' @ line,
                            existing_addresses := insert x (existing_addresses s')\<rparr>))
         \<and> ((\<exists>line. format_line h ts co ci clean d = Inr line) \<longleftrightarrow>
              (\<exists>lat lng osm_id bt lv.
                 lookup d ''lat'' = Inr lat \<and> has_6f lat
                 \<and> lookup d ''lng'' = Inr lng \<and> has_6f lng
                 \<and> lookup d ''osm_id'' = Inr osm_id \<and> (\<exists>t. format_plain h osm_id = Inr t)
                 \<and> lookup d ''building_type'' = Inr bt \<and> (\<exists>t. format_plain h bt = Inr t)
                 \<and> lookup d ''levels'' = Inr lv \<and> (\<exists>t. format_plain h lv = Inr t)))"
proof -
  have c1: "length (accepted_with a cs rs)
           = (if \<exists>c\<in>set cs. \<exists>line. accept_call h c = Some (a, line) then 1 else 0)"
    using add_houses_dedup [OF assms, of a] by (simp add: init_store_def)
  have c2: "lookup data ''address'' = Inr v
              \<and> (\<not> truthy v \<or> (\<exists>x. v = JStr x \<and> x \<in> existing_addresses s))
            \<longrightarrow> add_house h env country city data s = (False, s)"
    using add_house_empty_or_seen [of data v s h env country city] by blast
  have c3: "fst (add_house h env' country' city' data' s') = True
            \<longrightarrow> (\<exists>x line. lookup data' ''address'' = Inr (JStr x) \<and> x \<noteq> []
                   \<and> x \<notin> existing_addresses s'
                   \<and> format_line h (now env') country' city' (replace_pipe x) data' = Inr line
                   \<and> snd (add_house h env' country' city' data' s')
                       = s'\<lparr>houses_file := houses_file s' @ line,
                            existing_addresses := insert x (existing_addresses s')\<rparr>)"
  proof
    assume "fst (add_house h env' country' city' data' s') = True"
    from add_house_True [OF this] obtain x line where
      acc: "accept_line h env' country' city' data' = Some (x, line)"
      and rest: "x \<notin> existing_addresses s'"
        "snd (add_house h env' country' city' data' s')
           = s'\<lparr>houses_file := houses_file s' @ line,
                existing_addresses := insert x (existing_addresses s')\<rparr>"
      by blast
    from accept_line_address [OF acc] rest
    show "\<exists>x line. lookup data' ''address'' = Inr (JStr x) \<and> x \<noteq> []
                   \<and> x \<notin> existing_addresses s'
                   \<and> format_line h (now env') country' city' (replace_pipe x) data' = Inr line
                   \<and> snd (add_house h env' country' city' data' s')
                       = s'\<lparr>houses_file := houses_file s' @ line,
                            existing_addresses := insert x (existing_addresses s')\<rparr>"
      by blast
  qed
  note c4 = format_line_ok [of h ts co ci clean d]
  show ?thesis by (intro conjI) (rule c1 c2 c3 c4)+
qed

theorem dedup_by_address_witness:
  "length (accepted_with ''Main St, 1''
             [call_at noon ''Main St, 1'' ''3'', call_at noon ''Main St, 1'' ''3''] [True, False]) = 1
   \<and> add_house example_host noon ''Germany'' ''Berlin'' (record_at ''Main St, 1'' ''3'')
        \<lparr>houses_file = header @ main_st_line, existing_addresses = {''Main St, 1''}\<rparr>
       = (False, \<lparr>houses_file = header @ main_st_line, existing_addresses = {''Main St, 1''}\<rparr>)
   \<and> (\<exists>x line. lookup (record_at ''Main St, 1'' ''3'') ''address'' = Inr (JStr x)
          \<and> snd (add_house example_host noon ''Germany'' ''Berlin'' (record_at ''Main St, 1'' ''3'')
                   init_store)
              = init_store\<lparr>houses_file := houses_file init_store @ line,
                            existing_addresses := insert x (existing_addresses init_store)\<rparr>)"
proof -
  have h1: "\<exists>c\<in>set [call_at noon ''Main St, 1'' ''3'', call_at noon ''Main St, 1'' ''3''].
              \<exists>line. accept_call example_host c = Some (''Main St, 1'', line)"
    by (simp add: accept_main_st)
  have h2: "lookup (record_at ''Main St, 1'' ''3'') ''address'' = Inr (JStr ''Main St, 1'')
            \<and> (\<not> truthy (JStr ''Main St, 1'')
                \<or> (\<exists>x. JStr ''Main St, 1'' = JStr x
                       \<and> x \<in> existing_addresses
                             \<lparr>houses_file = header @ main_st_line,
                              existing_addresses = {''Main St, 1''}\<rparr>))"
    by (simp add: record_at_def lookup_def)
  have h3: "fst (add_house example_host noon ''Germany'' ''Berlin'' (record_at ''Main St, 1'' ''3'')
                   init_store) = True"
    using accept_main_st
    by (simp add: add_house_cases accept_call_def call_at_def init_store_def)
  note t = dedup_by_address [OF main_st_twice, of "''Main St, 1''" "record_at ''Main St, 1'' ''3''"
         "JStr ''Main St, 1''"
         "\<lparr>houses_file = header @ main_st_line, existing_addresses = {''Main St, 1''}\<rparr>"
         noon "''Germany''" "''Berlin''" noon "''Germany''" "''Berlin''"
         "record_at ''Main St, 1'' ''3''" init_store
         "''2024-01-01 12:00:00''" "''Germany''" "''Berlin''" "''Main St, 1''"
         "record_at ''Main St, 1'' ''3''"]
  have r1: "length (accepted_with ''Main St, 1''
             [call_at noon ''Main St, 1'' ''3'', call_at noon ''Main St, 1'' ''3''] [True, False]) = 1"
    using conjunct1 [OF t] h1 by (simp only: if_True)
  have r2: "add_house example_host noon ''Germany'' ''Berlin'' (record_at ''Main St, 1'' ''3'')
        \<lparr>houses_file = header @ main_st_line, existing_addresses = {''Main St, 1''}\<rparr>
       = (False, \<lparr>houses_file = header @ main_st_line, existing_addresses = {''Main St, 1''}\<rparr>)"
    using conjunct1 [OF conjunct2 [OF t]] h2 by (rule mp)
  have "\<exists>x line. lookup (record_at ''Main St, 1'' ''3'') ''address'' = Inr (JStr x) \<and> x \<noteq> []
                   \<and> x \<notin> existing_addresses init_store
                   \<and> format_line example_host (now noon) ''Germany'' ''Berlin'' (replace_pipe x)
                         (record_at ''Main St, 1'' ''3'') = Inr line
                   \<and> snd (add_house example_host noon ''Germany'' ''Berlin''
                             (record_at ''Main St, 1'' ''3'') init_store)
                       = init_store\<lparr>houses_file := houses_file init_store @ line,
                            existing_addresses := insert x (existing_addresses init_store)\<rparr>"
    using conjunct1 [OF conjunct2 [OF conjunct2 [OF t]]] h3 by (rule mp)
  then have r3: "\<exists>x line. lookup (record_at ''Main St, 1'' ''3'') ''address'' = Inr (JStr x)
          \<and> snd (add_house example_host noon ''Germany'' ''Berlin'' (record_at ''Main St, 1'' ''3'')
                   init_store)
              = init_store\<lparr>houses_file := houses_file init_store @ line,
                            existing_addresses := insert x (existing_addresses init_store)\<rparr>"
    by (elim exE conjE) (intro exI conjI, assumption+)
  show ?thesis by (intro conjI) (rule r1 r2 r3)+
qed

text \<open>
  The claim as the specification states it fails: a single call with the address
  \<^verbatim>\<open>Main St, 1\<close> whose append raises returns \<^verbatim>\<open>False\<close>, so this distinct non-empty address is
  accepted not once but never.
\<close>

theorem dedup_by_address_counterexample:
  "lookup (call_data (call_at disk_full ''Main St, 1'' ''3'')) ''address'' = Inr (JStr ''Main St, 1'')
   \<and> add_houses example_host [call_at disk_full ''Main St, 1'' ''3''] init_store
       = ([False], init_store)"
  by (simp add: add_call_cases accept_call_def accept_line_def call_at_def record_at_def
        lookup_def disk_full_def format_line_def example_host_def replace_pipe_def)

text \<open>
  Claim C3, as the code has it. After a sequence of \<^verbatim>\<open>add_house\<close> calls on a fresh store,
  \<^verbatim>\<open>get_stats\<close> returns as total the number of calls that returned \<^verbatim>\<open>True\<close>, provided the line
  of every accepted call has no line break (LF or CR) before its final LF. In general
  \<^verbatim>\<open>get_stats\<close> returns the number of lines of the file less two, at least zero, and zero
  when the file cannot be read.
\<close>

theorem get_stats_counts_accepted:
  assumes "add_houses h cs init_store = (rs, st)"
    and "\<forall>cr\<in>set (zip cs rs). snd cr \<longrightarrow>
           (\<forall>a line. accept_call h (fst cr) = Some (a, line) \<longrightarrow> unbroken line)"
  shows "get_stats True st = [(''total'', int (length (filter (\<lambda>r. r) rs)))]
         \<and> get_stats True s = [(''total'', max 0 (int (length (readlines (houses_file s))) - 2))]
         \<and> get_stats False s = [(''total'', 0)]"
proof -
  have "length (readlines (houses_file st))
          = length (readlines (houses_file init_store)) + length (filter (\<lambda>r. r) rs)"
    using add_houses_lines [OF assms(1) _ _ assms(2)] header_ends
    by (simp add: init_store_def)
  then have "length (readlines (houses_file st)) = 2 + length (filter (\<lambda>r. r) rs)"
    by (simp add: init_store_def readlines_header)
  then show ?thesis by (simp add: get_stats_def)
qed

theorem get_stats_counts_accepted_witness:
  "get_stats True \<lparr>houses_file = header @ main_st_line, existing_addresses = {''Main St, 1''}\<rparr>
     = [(''total'', 1)]"
proof -
  have "\<forall>cr\<in>set (zip [call_at noon ''Main St, 1'' ''3'', call_at noon ''Main St, 1'' ''3'']
                       [True, False]).
          snd cr \<longrightarrow> (\<forall>a line. accept_call example_host (fst cr) = Some (a, line)
                        \<longrightarrow> unbroken line)"
    by (simp add: accept_main_st unbroken_main_st)
  from conjunct1 [OF get_stats_counts_accepted [OF main_st_twice this, of init_store]]
  show ?thesis by simp
qed

text \<open>
  The claim as the specification states it fails: one call with an address that contains a
  line break is accepted, its line is read back as two, and the total is 2 after one
  accepted record.
\<close>

theorem get_stats_counts_accepted_counterexample:
  "fst (add_houses example_host [call_at noon broken_address ''3''] init_store) = [True]
   \<and> get_stats True (snd (add_houses example_host [call_at noon broken_address ''3''] init_store))
       = [(''total'', 2)]"
  by (simp only: broken_once) (simp add: get_stats_def readlines_broken)

text \<open>
  Claim C7, as the code has it. A call that returns \<^verbatim>\<open>True\<close> adds the address as it was given
  to \<^verbatim>\<open>existing_addresses\<close> and appends a line whose address field is the address with every
  pipe replaced by a comma (same length, every other character kept, no pipe left). If
  none of the other eight fields of the line (the time stamp, the two labels, the two
  formatted coordinates, and the identifier, building type and levels as rendered) contains
  a pipe, splitting the line on \<^verbatim>\<open>" | "\<close> yields exactly these nine fields.
\<close>

theorem pipes_become_commas:
  assumes "add_house h env country city data st = (True, st')"
  shows "\<exists>a lat lng osm_id bt lv osm_id_text bt_text lv_text.
           lookup data ''address'' = Inr (JStr a)
           \<and> lookup data ''lat'' = Inr lat \<and> lookup data ''lng'' = Inr lng
           \<and> lookup data ''osm_id'' = Inr osm_id \<and> lookup data ''building_type'' = Inr bt
           \<and> lookup data ''levels'' = Inr lv
           \<and> format_plain h osm_id = Inr osm_id_text \<and> format_plain h bt = Inr bt_text
           \<and> format_plain h lv = Inr lv_text
           \<and> existing_addresses st' = insert a (existing_addresses st)
           \<and> houses_file st'
               = houses_file st @ now env @ '' | '' @ country @ '' | '' @ city @ '' | ''
                   @ replace_pipe a @ '' | '' @ fmt6f h lat @ '' | '' @ fmt6f h lng @ '' | ''
                   @ osm_id_text @ '' | '' @ bt_text @ '' | '' @ lv_text @ [LF]
           \<and> pipe_free (replace_pipe a) \<and> length (replace_pipe a) = length a
           \<and> (\<forall>i<length a. replace_pipe a ! i = (if a ! i = CHR ''|'' then CHR '','' else a ! i))
           \<and> (pipe_free (now env) \<and> pipe_free country \<and> pipe_free city
                \<and> pipe_free (fmt6f h lat) \<and> pipe_free (fmt6f h lng)
                \<and> pipe_free osm_id_text \<and> pipe_free bt_text \<and> pipe_free lv_text
              \<longrightarrow> py_split '' | '' (drop (length (houses_file st)) (houses_file st'))
                    = [now env, country, city, replace_pipe a, fmt6f h lat, fmt6f h lng,
                       osm_id_text, bt_text, lv_text @ [LF]])"
proof -
  from assms have t: "fst (add_house h env country city data st) = True"
    and st': "snd (add_house h env country city data st) = st'"
    by simp_all
  from add_house_True [OF t] st' obtain a line where
    acc: "accept_line h env country city data = Some (a, line)"
    and st'_eq: "st' = st\<lparr>houses_file := houses_file st @ line,
                         existing_addresses := insert a (existing_addresses st)\<rparr>"
    by auto
  from accept_line_address [OF acc] have addr: "lookup data ''address'' = Inr (JStr a)"
    and fl: "format_line h (now env) country city (replace_pipe a) data = Inr line"
    by simp_all
  from format_line_Inr [OF fl] obtain lat lng osm_id bt lv osm_id_text bt_text lv_text where
    lk: "lookup data ''lat'' = Inr lat" "lookup data ''lng'' = Inr lng"
      "lookup data ''osm_id'' = Inr osm_id" "lookup data ''building_type'' = Inr bt"
      "lookup data ''levels'' = Inr lv"
    and tx: "format_plain h osm_id = Inr osm_id_text" "format_plain h bt = Inr bt_text"
      "format_plain h lv = Inr lv_text"
    and line: "line = now env @ '' | '' @ country @ '' | '' @ city @ '' | ''
                   @ replace_pipe a @ '' | '' @ fmt6f h lat @ '' | '' @ fmt6f h lng @ '' | ''
                   @ osm_id_text @ '' | '' @ bt_text @ '' | '' @ lv_text @ [LF]"
    by blast
  have written: "houses_file st' = houses_file st @ line" and seen:
    "existing_addresses st' = insert a (existing_addresses st)"
    using st'_eq by simp_all
  have dropped: "drop (length (houses_file st)) (houses_file st') = line"
    using written by simp
  have split: "py_split '' | '' line
                 = [now env, country, city, replace_pipe a, fmt6f h lat, fmt6f h lng,
                    osm_id_text, bt_text, lv_text @ [LF]]"
    if pf: "pipe_free (now env)" "pipe_free country" "pipe_free city"
      "pipe_free (fmt6f h lat)" "pipe_free (fmt6f h lng)"
      "pipe_free osm_id_text" "pipe_free bt_text" "pipe_free lv_text"
  proof -
    have last: "pipe_free (lv_text @ [LF])"
      using pf(8) by (simp add: pipe_free_def LF_def)
    show ?thesis
      unfolding line
      using split_nine [OF pf(1,2,3) pipe_free_replace_pipe pf(4,5,6,7) last] by simp
  qed
  have c_split: "pipe_free (now env) \<and> pipe_free country \<and> pipe_free city
                \<and> pipe_free (fmt6f h lat) \<and> pipe_free (fmt6f h lng)
                \<and> pipe_free osm_id_text \<and> pipe_free bt_text \<and> pipe_free lv_text
              \<longrightarrow> py_split '' | '' (drop (length (houses_file st)) (houses_file st'))
                    = [now env, country, city, replace_pipe a, fmt6f h lat, fmt6f h lng,
                       osm_id_text, bt_text, lv_text @ [LF]]"
    unfolding dropped using split by (intro impI) (elim conjE)
  have c_file: "houses_file st'
               = houses_file st @ now env @ '' | '' @ country @ '' | '' @ city @ '' | ''
                   @ replace_pipe a @ '' | '' @ fmt6f h lat @ '' | '' @ fmt6f h lng @ '' | ''
                   @ osm_id_text @ '' | '' @ bt_text @ '' | '' @ lv_text @ [LF]"
    using written line by simp
  note facts = addr lk tx seen c_file pipe_free_replace_pipe [of a]
    conjunct1 [OF replace_pipe_nth [of a]] conjunct2 [OF replace_pipe_nth [of a]] c_split
  have "lookup data ''address'' = Inr (JStr a)
           \<and> lookup data ''lat'' = Inr lat \<and> lookup data ''lng'' = Inr lng
           \<and> lookup data ''osm_id'' = Inr osm_id \<and> lookup data ''building_type'' = Inr bt
           \<and> lookup data ''levels'' = Inr lv
           \<and> format_plain h osm_id = Inr osm_id_text \<and> format_plain h bt = Inr bt_text
           \<and> format_plain h lv = Inr lv_text
           \<and> existing_addresses st' = insert a (existing_addresses st)
           \<and> houses_file st'
               = houses_file st @ now env @ '' | '' @ country @ '' | '' @ city @ '' | ''
                   @ replace_pipe a @ '' | '' @ fmt6f h lat @ '' | '' @ fmt6f h lng @ '' | ''
                   @ osm_id_text @ '' | '' @ bt_text @ '' | '' @ lv_text @ [LF]
           \<and> pipe_free (replace_pipe a) \<and> length (replace_pipe a) = length a
           \<and> (\<forall>i<length a. replace_pipe a ! i = (if a ! i = CHR ''|'' then CHR '','' else a ! i))
           \<and> (pipe_free (now env) \<and> pipe_free country \<and> pipe_free city
                \<and> pipe_free (fmt6f h lat) \<and> pipe_free (fmt6f h lng)
                \<and> pipe_free osm_id_text \<and> pipe_free bt_text \<and> pipe_free lv_text
              \<longrightarrow> py_split '' | '' (drop (length (houses_file st)) (houses_file st'))
                    = [now env, country, city, replace_pipe a, fmt6f h lat, fmt6f h lng,
                       osm_id_text, bt_text, lv_text @ [LF]])"
    by (intro conjI) (rule facts)+
  then show ?thesis by (intro exI)
qed

theorem pipes_become_commas_witness:
  "existing_addresses
     (snd (add_house example_host noon ''Germany'' ''Berlin'' (record_at ''A|B St, 1'' ''3'')
             init_store))
     = {''A|B St, 1''}
   \<and> py_split '' | ''
       (drop (length (houses_file init_store))
          (houses_file
             (snd (add_house example_host noon ''Germany'' ''Berlin''
                     (record_at ''A|B St, 1'' ''3'') init_store))))
     = [''2024-01-01 12:00:00'', ''Germany'', ''Berlin'', ''A,B St, 1'', ''52.520000'',
        ''52.520000'', ''123456789'', ''residential'', ''3'' @ [LF]]"
proof -
  let ?d = "record_at ''A|B St, 1'' ''3''"
  let ?st' = "snd (add_house example_host noon ''Germany'' ''Berlin'' ?d init_store)"
  have "fst (add_house example_host noon ''Germany'' ''Berlin'' ?d init_store) = True"
    by (simp add: add_house_cases accept_line_def record_at_def lookup_def noon_def
          format_line_def example_host_def init_store_def float_overflow_def)
  then have acc: "add_house example_host noon ''Germany'' ''Berlin'' ?d init_store = (True, ?st')"
    by (simp add: prod_eq_iff)
  from pipes_become_commas [OF acc] obtain a lat lng osm_id bt lv osm_id_text bt_text lv_text
    where lk: "lookup ?d ''address'' = Inr (JStr a)" "lookup ?d ''lat'' = Inr lat"
      "lookup ?d ''lng'' = Inr lng" "lookup ?d ''osm_id'' = Inr osm_id"
      "lookup ?d ''building_type'' = Inr bt" "lookup ?d ''levels'' = Inr lv"
    and tx: "format_plain example_host osm_id = Inr osm_id_text"
      "format_plain example_host bt = Inr bt_text" "format_plain example_host lv = Inr lv_text"
    and seen: "existing_addresses ?st' = insert a (existing_addresses init_store)"
    and fields: "pipe_free (now noon) \<and> pipe_free ''Germany'' \<and> pipe_free ''Berlin''
                \<and> pipe_free (fmt6f example_host lat) \<and> pipe_free (fmt6f example_host lng)
                \<and> pipe_free osm_id_text \<and> pipe_free bt_text \<and> pipe_free lv_text
              \<longrightarrow> py_split '' | '' (drop (length (houses_file init_store)) (houses_file ?st'))
                    = [now noon, ''Germany'', ''Berlin'', replace_pipe a,
                       fmt6f example_host lat, fmt6f example_host lng,
                       osm_id_text, bt_text, lv_text @ [LF]]"
    by (elim exE conjE) (rule that)
  from lk have vals: "a = ''A|B St, 1''" "osm_id = JInt 123456789" "bt = JStr ''residential''"
    "lv = JStr ''3''"
    by (simp_all add: record_at_def lookup_def)
  from tx vals have texts: "osm_id_text = ''123456789''" "bt_text = ''residential''"
    "lv_text = ''3''"
    by (simp_all add: example_host_def)
  have pf: "pipe_free (now noon) \<and> pipe_free ''Germany'' \<and> pipe_free ''Berlin''
                \<and> pipe_free (fmt6f example_host lat) \<and> pipe_free (fmt6f example_host lng)
                \<and> pipe_free osm_id_text \<and> pipe_free bt_text \<and> pipe_free lv_text"
    by (simp add: texts pipe_free_def noon_def example_host_def)
  from fields pf have "py_split '' | '' (drop (length (houses_file init_store)) (houses_file ?st'))
                    = [now noon, ''Germany'', ''Berlin'', replace_pipe a,
                       fmt6f example_host lat, fmt6f example_host lng,
                       osm_id_text, bt_text, lv_text @ [LF]]"
    by blast
  then have "py_split '' | '' (drop (length (houses_file init_store)) (houses_file ?st'))
       = [''2024-01-01 12:00:00'', ''Germany'', ''Berlin'', ''A,B St, 1'', ''52.520000'',
          ''52.520000'', ''123456789'', ''residential'', ''3'' @ [LF]]"
    by (simp add: vals texts noon_def example_host_def replace_pipe_def)
  moreover have "existing_addresses ?st' = {''A|B St, 1''}"
    using seen vals by (simp add: init_store_def)
  ultimately show ?thesis by blast
qed

text \<open>
  The claim as the specification states it fails: only the address is sanitised. A record
  with the address \<^verbatim>\<open>A|B\<close> and the levels \<^verbatim>\<open>1 | 2\<close> is accepted, and its line splits into
  ten fields.
\<close>

theorem pipes_become_commas_counterexample:
  "CHR ''|'' \<in> set ''A|B''
   \<and> fst (add_house example_host noon ''Germany'' ''Berlin'' (record_at ''A|B'' ''1 | 2'')
           init_store) = True
   \<and> length (py_split '' | ''
       (drop (length (houses_file init_store))
          (houses_file
             (snd (add_house example_host noon ''Germany'' ''Berlin''
                     (record_at ''A|B'' ''1 | 2'') init_store))))) = 10"
  by (simp add: add_house_cases accept_line_def record_at_def lookup_def noon_def
        format_line_def example_host_def replace_pipe_def init_store_def py_split_def)

end
